theory Spec2Isabelle
  imports Main
begin

section \<open>JSON values\<close>

text \<open>
  The resume payload is whatever \<^verbatim>\<open>req.json()\<close> parsed: null, booleans, numbers, strings,
  arrays and objects. An object is kept as the list of its own properties in the order
  \<^verbatim>\<open>Object.keys\<close> enumerates them; a parsed object never has the same key twice, which is
  what \<open>wf_json\<close> says. Numbers are integers here, and \<^verbatim>\<open>===\<close> on them is equality.
  JavaScript's \<^verbatim>\<open>undefined\<close> (a property that is absent) is \<open>None\<close> of \<open>json option\<close>.

  Two things of JavaScript need a word. A property read that misses the own properties of
  an object continues in the prototype chain. What it finds there are functions, and
  \<^verbatim>\<open>deepEqual\<close> answers false for a function against every JSON value, as it does for
  \<^verbatim>\<open>undefined\<close>: such a read is \<open>None\<close> here. The exception is the accessor
  \<^verbatim>\<open>__proto__\<close>, which yields an object; payloads with a key of that name are outside the
  model. And \<^verbatim>\<open>a === b\<close> on two objects or arrays asks whether they are the same
  reference: the model takes the structural path that follows it in the source, which
  returns true on a well-formed value compared with itself (\<open>deepEqual_refl\<close>).
\<close>

datatype json =
    JNull
  | JBool bool
  | JNum int
  | JStr string
  | JArr "json list"
  | JObj "(string \<times> json) list"

type_synonym section_map = "(string \<times> json) list"

fun wf_json :: "json \<Rightarrow> bool" where
  "wf_json (JArr xs) = list_all wf_json xs"
| "wf_json (JObj kvs) = (distinct (map fst kvs) \<and> list_all (\<lambda>(k, v). wf_json v) kvs)"
| "wf_json _ = True"

definition wf_section_map :: "section_map \<Rightarrow> bool" where
  "wf_section_map m = wf_json (JObj m)"

text \<open>Truthiness of a JSON value, as \<^verbatim>\<open>if (x)\<close>, \<^verbatim>\<open>!x\<close> and \<^verbatim>\<open>x || y\<close> test it.\<close>

fun truthy :: "json option \<Rightarrow> bool" where
  "truthy None = False"
| "truthy (Some JNull) = False"
| "truthy (Some (JBool b)) = b"
| "truthy (Some (JNum n)) = (n \<noteq> 0)"
| "truthy (Some (JStr s)) = (s \<noteq> [])"
| "truthy (Some (JArr xs)) = True"
| "truthy (Some (JObj kvs)) = True"

text \<open>
  \<^verbatim>\<open>x?.name\<close> for the property names the handlers read (\<^verbatim>\<open>meta\<close>, \<^verbatim>\<open>basics\<close>, \<^verbatim>\<open>code\<close>,
  \<^verbatim>\<open>name\<close>, \<^verbatim>\<open>full\<close>, \<^verbatim>\<open>data\<close>, \<^verbatim>\<open>title\<close>): only an object has them.
\<close>

fun field :: "json option \<Rightarrow> string \<Rightarrow> json option" where
  "field (Some (JObj kvs)) k = map_of kvs k"
| "field _ k = None"

subsection \<open>Printing numbers and values\<close>

definition digit_char :: "nat \<Rightarrow> char" where
  "digit_char d = ''0123456789'' ! d"

function show_nat :: "nat \<Rightarrow> string" where
  "show_nat n = (if n < 10 then [digit_char n] else show_nat (n div 10) @ [digit_char (n mod 10)])"
  by pat_completeness auto
termination
  by (relation "measure id") auto

declare show_nat.simps [simp del]

definition show_int :: "int \<Rightarrow> string" where
  "show_int i = (if i < 0 then CHR ''-'' # show_nat (nat (- i)) else show_nat (nat i))"

fun join :: "string \<Rightarrow> string list \<Rightarrow> string" where
  "join sep [] = []"
| "join sep [x] = x"
| "join sep (x # y # ys) = x @ sep @ join sep (y # ys)"

text \<open>\<^verbatim>\<open>`${x}`\<close> on a JSON value: what a template literal prints.\<close>

fun js_String :: "json \<Rightarrow> string" where
  "js_String JNull = ''null''"
| "js_String (JBool b) = (if b then ''true'' else ''false'')"
| "js_String (JNum n) = show_int n"
| "js_String (JStr s) = s"
| "js_String (JArr xs) = join '','' (map (\<lambda>x. if x = JNull then [] else js_String x) xs)"
| "js_String (JObj kvs) = ''[object Object]''"

section \<open>The section diff (\<^verbatim>\<open>src/lib/diff.ts\<close>)\<close>

text \<open>
  \<^verbatim>\<open>b[key]\<close> where \<open>b\<close> is an array and \<open>key\<close> a string: an index in canonical decimal form reads
  the element, \<^verbatim>\<open>length\<close> reads the length, everything else is undefined or a function.
\<close>

definition is_digit :: "char \<Rightarrow> bool" where
  "is_digit c = (48 \<le> (of_char c :: nat) \<and> (of_char c :: nat) \<le> 57)"

definition array_index :: "string \<Rightarrow> nat option" where
  "array_index s =
     (if s = [] \<or> \<not> list_all is_digit s \<or> (1 < length s \<and> hd s = CHR ''0'') then None
      else Some (foldl (\<lambda>n c. 10 * n + (of_char c - 48)) 0 s))"

definition array_get :: "json list \<Rightarrow> string \<Rightarrow> json option" where
  "array_get ys k =
     (if k = ''length'' then Some (JNum (int (length ys)))
      else case array_index k of
             Some i \<Rightarrow> if i < length ys then Some (ys ! i) else None
           | None \<Rightarrow> None)"

text \<open>
  \<^verbatim>\<open>deepEqual(a, b)\<close>, line by line. \<^verbatim>\<open>a === b\<close> decides the primitives; null and undefined
  equal only themselves; an array needs an array of the same length; an object \<open>a\<close> compares
  the number of its keys with that of \<^verbatim>\<open>Object.keys(b)\<close> and then reads \<^verbatim>\<open>b[key]\<close> for every
  key of \<open>a\<close>. The object branch does not ask whether \<open>b\<close> is an array, so \<open>b\<close> may be one:
  its keys are then its indices.
\<close>

fun deepEqual :: "json option \<Rightarrow> json option \<Rightarrow> bool" where
  "deepEqual None b = (b = None)"
| "deepEqual (Some a) None = False"
| "deepEqual (Some JNull) (Some b) = (b = JNull)"
| "deepEqual (Some (JBool x)) (Some b) = (b = JBool x)"
| "deepEqual (Some (JNum x)) (Some b) = (b = JNum x)"
| "deepEqual (Some (JStr x)) (Some b) = (b = JStr x)"
| "deepEqual (Some (JArr xs)) (Some b) =
     (case b of
        JArr ys \<Rightarrow> length xs = length ys \<and> list_all2 (\<lambda>x y. deepEqual (Some x) (Some y)) xs ys
      | _ \<Rightarrow> False)"
| "deepEqual (Some (JObj kvs)) (Some b) =
     (case b of
        JObj kvs' \<Rightarrow>
          length kvs = length kvs' \<and> list_all (\<lambda>(k, v). deepEqual (Some v) (map_of kvs' k)) kvs
      | JArr ys \<Rightarrow>
          length kvs = length ys \<and> list_all (\<lambda>(k, v). deepEqual (Some v) (array_get ys k)) kvs
      | _ \<Rightarrow> False)"

text \<open>\<^verbatim>\<open>new Set([...])\<close>: insertion order, the first occurrence of a key stays.\<close>

definition set_add :: "'a list \<Rightarrow> 'a \<Rightarrow> 'a list" where
  "set_add acc k = (if k \<in> set acc then acc else acc @ [k])"

definition new_Set :: "'a list \<Rightarrow> 'a list" where
  "new_Set ks = foldl set_add [] ks"

definition diffSections :: "section_map option \<Rightarrow> section_map \<Rightarrow> string list" where
  "diffSections oldData newData =
     (case oldData of
        None \<Rightarrow> map fst newData
      | Some old \<Rightarrow>
          filter (\<lambda>key. \<not> deepEqual (map_of old key) (map_of newData key))
                 (new_Set (map fst old @ map fst newData)))"

definition generateChangeSummary :: "string list \<Rightarrow> string" where
  "generateChangeSummary changedSections =
     (if length changedSections = 0 then ''No changes detected''
      else if length changedSections = 1 then ''Updated '' @ hd changedSections
      else if length changedSections \<le> 3 then ''Updated '' @ join '', '' changedSections
      else ''Updated '' @ show_nat (length changedSections) @ '' sections'')"

text \<open>
  The equality the specification describes, written from its words: objects by their full key
  set and the values under each key, arrays element by element, primitives by value, and
  every other pair of values different.
\<close>

fun spec_deep_equal :: "json \<Rightarrow> json \<Rightarrow> bool" where
  "spec_deep_equal JNull b = (b = JNull)"
| "spec_deep_equal (JBool x) b = (b = JBool x)"
| "spec_deep_equal (JNum x) b = (b = JNum x)"
| "spec_deep_equal (JStr x) b = (b = JStr x)"
| "spec_deep_equal (JArr xs) b =
     (case b of JArr ys \<Rightarrow> list_all2 spec_deep_equal xs ys | _ \<Rightarrow> False)"
| "spec_deep_equal (JObj kvs) b =
     (case b of
        JObj kvs' \<Rightarrow>
          set (map fst kvs) = set (map fst kvs') \<and>
          list_all (\<lambda>(k, v). case map_of kvs' k of None \<Rightarrow> False | Some w \<Rightarrow> spec_deep_equal v w) kvs
      | _ \<Rightarrow> False)"

text \<open>Absent against absent is equal, absent against any value (null too) is changed.\<close>

fun spec_section_equal :: "json option \<Rightarrow> json option \<Rightarrow> bool" where
  "spec_section_equal None None = True"
| "spec_section_equal (Some a) (Some b) = spec_deep_equal a b"
| "spec_section_equal _ _ = False"

definition spec_diffSections :: "section_map option \<Rightarrow> section_map \<Rightarrow> string set" where
  "spec_diffSections previous next =
     (case previous of
        None \<Rightarrow> set (map fst next)
      | Some prev \<Rightarrow>
          {k \<in> set (map fst prev) \<union> set (map fst next).
             \<not> spec_section_equal (map_of prev k) (map_of next k)})"

section \<open>The collections (\<^verbatim>\<open>Resume\<close>, \<^verbatim>\<open>ResumeVersion\<close>)\<close>

text \<open>
  \<open>rid\<close> is the document's \<^verbatim>\<open>_id\<close>, \<open>vdata\<close> a version row's \<^verbatim>\<open>data\<close>. The timestamps
  are left out: no handler reads them.
  \<open>title\<close> and \<open>meta_code\<close> are strings, as the schema declares them; a request that carries
  another JSON type there is outside the model.
\<close>

datatype change_type = Edit | Upload | Rollback

record resume =
  rid :: nat
  user_id :: string
  meta_code :: string
  title :: string
  data :: section_map
  current_version :: nat

record resume_version =
  resume_id :: nat
  version_number :: nat
  vdata :: section_map
  changed_sections :: "string list"
  change_summary :: "string option"
  change_type :: change_type

record db =
  resumes :: "resume list"
  versions :: "resume_version list"
  next_id :: nat

datatype store_error = DuplicateKey | StoreUnavailable | TypeError

text \<open>
  A request may lose the store in the middle: \<open>FailWrite k\<close> makes the \<open>k\<close>-th write of the
  request throw before it takes effect. The handlers catch every exception and answer 500;
  what was written before stays written.
  A request that fails before its first write (a body that does not parse, a store that
  cannot be reached) writes nothing and is not modelled further.
\<close>

datatype fault = NoFault | FailWrite nat

definition findById :: "db \<Rightarrow> nat \<Rightarrow> resume option" where
  "findById s i = find (\<lambda>r. rid r = i) (resumes s)"

definition findOne_meta_code :: "db \<Rightarrow> string \<Rightarrow> resume option" where
  "findOne_meta_code s c = find (\<lambda>r. meta_code r = c) (resumes s)"

definition findVersion :: "db \<Rightarrow> nat \<Rightarrow> nat \<Rightarrow> resume_version option" where
  "findVersion s i n = find (\<lambda>v. resume_id v = i \<and> version_number v = n) (versions s)"

text \<open>
  \<^verbatim>\<open>ResumeVersion.create\<close>: the unique index on \<^verbatim>\<open>(resume_id, version_number)\<close> refuses a second
  row for the same pair.
\<close>

definition ResumeVersion_create :: "fault \<Rightarrow> nat \<Rightarrow> resume_version \<Rightarrow> db \<Rightarrow> store_error + db" where
  "ResumeVersion_create f k v s =
     (if f = FailWrite k then Inl StoreUnavailable
      else if findVersion s (resume_id v) (version_number v) \<noteq> None then Inl DuplicateKey
      else Inr (s\<lparr>versions := versions s @ [v]\<rparr>))"

definition Resume_create ::
  "fault \<Rightarrow> nat \<Rightarrow> string \<Rightarrow> string \<Rightarrow> section_map \<Rightarrow> nat \<Rightarrow> db \<Rightarrow> store_error + (resume \<times> db)" where
  "Resume_create f k mc t d cv s =
     (if f = FailWrite k then Inl StoreUnavailable
      else
        let r = \<lparr>rid = next_id s, user_id = ''anonymous'', meta_code = mc, title = t,
                 data = d, current_version = cv\<rparr>
        in Inr (r, s\<lparr>resumes := resumes s @ [r], next_id := Suc (next_id s)\<rparr>))"

definition save :: "fault \<Rightarrow> nat \<Rightarrow> resume \<Rightarrow> db \<Rightarrow> store_error + db" where
  "save f k r s =
     (if f = FailWrite k then Inl StoreUnavailable
      else Inr (s\<lparr>resumes := map (\<lambda>x. if rid x = rid r then r else x) (resumes s)\<rparr>))"

section \<open>Requests and responses\<close>

datatype api_error =
    Missing_data
  | Resume_not_found
  | Version_not_found nat
  | Missing_version_number
  | Invalid_section json
  | Invalid_sections "string list"
  | Bad_patch_body
  | Invalid_payload
  | Missing_meta_code
  | Thrown store_error

datatype payload =
    Data resume
  | No_change resume
  | Action string resume
  | Rolled_back resume nat
  | Error api_error

datatype response = Response (status: nat) (payload: payload)

definition succeeded :: "response \<Rightarrow> bool" where
  "succeeded r = (status r < 400)"

text \<open>\<^verbatim>\<open>if (title)\<close> on an optional string: present and not empty.\<close>

fun given :: "string option \<Rightarrow> bool" where
  "given None = False"
| "given (Some t) = (t \<noteq> [])"

fun as_string :: "json option \<Rightarrow> string option" where
  "as_string (Some (JStr t)) = Some t"
| "as_string _ = None"

definition assign_title :: "string option \<Rightarrow> resume \<Rightarrow> resume" where
  "assign_title t r = (if given t then r\<lparr>title := the t\<rparr> else r)"

definition assign_meta_code :: "string option \<Rightarrow> resume \<Rightarrow> resume" where
  "assign_meta_code c r = (if given c then r\<lparr>meta_code := the c\<rparr> else r)"

section \<open>Replace: \<^verbatim>\<open>PUT /api/resumes/[id]\<close>\<close>

record put_body =
  pb_data :: "section_map option"
  pb_title :: "string option"
  pb_meta_code :: "string option"

definition PUT :: "fault \<Rightarrow> db \<Rightarrow> nat \<Rightarrow> put_body \<Rightarrow> response \<times> db" where
  "PUT f s i body =
     (case pb_data body of
        None \<Rightarrow> (Response 400 (Error Missing_data), s)
      | Some d \<Rightarrow>
     (case findById s i of
        None \<Rightarrow> (Response 404 (Error Resume_not_found), s)
      | Some currentResume \<Rightarrow>
          let changedSections = diffSections (Some (data currentResume)) d in
          if length changedSections = 0 then
            let r = assign_meta_code (pb_meta_code body) (assign_title (pb_title body) currentResume);
                updated = (given (pb_title body) \<or> given (pb_meta_code body))
            in if updated then
                 (case save f 1 r s of
                    Inl e \<Rightarrow> (Response 500 (Error (Thrown e)), s)
                  | Inr s' \<Rightarrow> (Response 200 (No_change r), s'))
               else (Response 200 (No_change r), s)
          else
            let changeSummary = generateChangeSummary changedSections;
                nextVersion = current_version currentResume + 1
            in (case ResumeVersion_create f 1
                       \<lparr>resume_id = i, version_number = nextVersion, vdata = d,
                        changed_sections = changedSections, change_summary = Some changeSummary,
                        change_type = Edit\<rparr> s of
                  Inl e \<Rightarrow> (Response 500 (Error (Thrown e)), s)
                | Inr s1 \<Rightarrow>
                    let r = assign_meta_code (pb_meta_code body) (assign_title (pb_title body)
                              (currentResume\<lparr>data := d, current_version := nextVersion\<rparr>))
                    in (case save f 2 r s1 of
                          Inl e \<Rightarrow> (Response 500 (Error (Thrown e)), s1)
                        | Inr s2 \<Rightarrow> (Response 200 (Data r), s2)))))"

section \<open>Partial update: \<^verbatim>\<open>PATCH /api/resumes/[id]\<close>\<close>

definition validSections :: "string list" where
  "validSections = [''meta'', ''basics'', ''work'', ''education'', ''skills'', ''projects'']"

text \<open>\<^verbatim>\<open>{ ...a, [k]: v }\<close> and \<^verbatim>\<open>{ ...a, ...b }\<close>: a key that is there keeps its place, a new key goes last.\<close>

fun obj_set :: "section_map \<Rightarrow> string \<Rightarrow> json \<Rightarrow> section_map" where
  "obj_set [] k v = [(k, v)]"
| "obj_set ((k', v') # kvs) k v = (if k' = k then (k, v) # kvs else (k', v') # obj_set kvs k v)"

definition obj_spread :: "section_map \<Rightarrow> section_map \<Rightarrow> section_map" where
  "obj_spread a b = foldl (\<lambda>acc (k, v). obj_set acc k v) a b"

record patch_body =
  p_section :: "json option"
  p_value :: "json option"
  p_sections :: "json option"
  p_title :: "string option"

text \<open>
  \<^verbatim>\<open>body.sections\<close> passes \<^verbatim>\<open>typeof body.sections === 'object'\<close> as an object or as an array;
  the keys of an array are its indices, none of them a valid section.
\<close>

fun sections_entries :: "json \<Rightarrow> section_map option" where
  "sections_entries (JObj kvs) = Some kvs"
| "sections_entries (JArr xs) = Some (map (\<lambda>n. (show_nat n, xs ! n)) [0..<length xs])"
| "sections_entries _ = None"

definition meta_code_assignment :: "json option \<Rightarrow> resume \<Rightarrow> resume" where
  "meta_code_assignment code r =
     (if truthy code then (case as_string code of Some c \<Rightarrow> r\<lparr>meta_code := c\<rparr> | None \<Rightarrow> r) else r)"

definition PATCH :: "fault \<Rightarrow> db \<Rightarrow> nat \<Rightarrow> patch_body \<Rightarrow> response \<times> db" where
  "PATCH f s i body =
     (case findById s i of
        None \<Rightarrow> (Response 404 (Error Resume_not_found), s)
      | Some currentResume \<Rightarrow>
          let finish = (\<lambda>r. case save f 1 r s of
                               Inl e \<Rightarrow> (Response 500 (Error (Thrown e)), s)
                             | Inr s' \<Rightarrow> (Response 200 (Data r), s'))
          in
          if truthy (p_section body) \<and> p_value body \<noteq> None then
            (case p_section body of
               Some (JStr name) \<Rightarrow>
                 if name \<in> set validSections then
                   let r = currentResume\<lparr>data := obj_set (data currentResume) name (the (p_value body))\<rparr>
                   in finish (if name = ''meta'' then meta_code_assignment (field (p_value body) ''code'') r
                              else r)
                 else (Response 400 (Error (Invalid_section (JStr name))), s)
             | Some other \<Rightarrow> (Response 400 (Error (Invalid_section other)), s)
             | None \<Rightarrow> (Response 400 (Error Bad_patch_body), s))
          else if truthy (p_sections body) \<and> sections_entries (the (p_sections body)) \<noteq> None then
            let entries = the (sections_entries (the (p_sections body)));
                invalidKeys = filter (\<lambda>k. k \<notin> set validSections) (map fst entries)
            in if length invalidKeys > 0 then (Response 400 (Error (Invalid_sections invalidKeys)), s)
               else
                 let r = currentResume\<lparr>data := obj_spread (data currentResume) entries\<rparr>
                 in finish (meta_code_assignment (field (map_of entries ''meta'') ''code'') r)
          else if given (p_title body) then
            finish (currentResume\<lparr>title := the (p_title body)\<rparr>)
          else (Response 400 (Error Bad_patch_body), s))"

section \<open>Create: \<^verbatim>\<open>POST /api/resumes\<close>\<close>

text \<open>
  \<^verbatim>\<open>data?.basics?.name?.full || fallback\<close>, printed as the template literal prints it. The
  separator of the generated title is kept byte for byte: the create route has a mis-encoded
  dash, the upload route an en dash.
\<close>

definition display_name :: "section_map \<Rightarrow> string \<Rightarrow> string" where
  "display_name d fallback =
     (let full = field (field (field (Some (JObj d)) ''basics'') ''name'') ''full''
      in if truthy full then js_String (the full) else fallback)"

definition create_separator :: string where
  "create_separator =
     [CHR '' '', CHR 0xC3, CHR 0xA2, CHR 0xE2, CHR 0x82, CHR 0xAC, CHR 0xE2, CHR 0x80, CHR 0x9C, CHR '' '']"

definition upload_separator :: string where
  "upload_separator = [CHR '' '', CHR 0xE2, CHR 0x80, CHR 0x93, CHR '' '']"

record create_body =
  cb_meta_code :: "string option"
  cb_title :: "string option"
  cb_data :: "section_map option"

definition POST_resumes :: "fault \<Rightarrow> db \<Rightarrow> create_body \<Rightarrow> response \<times> db" where
  "POST_resumes f s body =
     (case cb_data body of
        None \<Rightarrow> (Response 400 (Error Missing_data), s)
      | Some d \<Rightarrow>
          let code = field (field (Some (JObj d)) ''meta'') ''code'';
              meta_code1 = (if \<not> given (cb_meta_code body) \<and> truthy code then as_string code
                            else cb_meta_code body);
              title1 = (if \<not> given (cb_title body) then
                          (let name = display_name d ''Untitled''
                           in if given meta_code1 then name @ create_separator @ the meta_code1
                              else name)
                        else the (cb_title body))
          in if \<not> given meta_code1 then (Response 400 (Error Missing_meta_code), s)
             else
               (case Resume_create f 1 (the meta_code1) title1 d 1 s of
                  Inl e \<Rightarrow> (Response 500 (Error (Thrown e)), s)
                | Inr (newResume, s1) \<Rightarrow>
                    (case ResumeVersion_create f 2
                            \<lparr>resume_id = rid newResume, version_number = 1, vdata = d,
                             changed_sections = [], change_summary = None, change_type = Edit\<rparr> s1 of
                       Inl e \<Rightarrow> (Response 500 (Error (Thrown e)), s1)
                     | Inr s2 \<Rightarrow> (Response 201 (Data newResume), s2))))"

section \<open>Ingest: \<^verbatim>\<open>POST /api/resumes/upload\<close>\<close>

fun entries_of :: "json option \<Rightarrow> section_map" where
  "entries_of (Some (JObj kvs)) = kvs"
| "entries_of _ = []"

text \<open>
  The body is the parsed JSON itself. The wrapper \<^verbatim>\<open>{ title, data }\<close> is recognised by
  \<^verbatim>\<open>data.meta\<close> or \<^verbatim>\<open>data.basics\<close>; otherwise the body is the resume when it has \<^verbatim>\<open>meta\<close> or
  \<^verbatim>\<open>basics\<close>. Reading a property of \<^verbatim>\<open>null\<close> throws.
\<close>

definition upload_payload :: "json \<Rightarrow> (section_map \<times> string option) option" where
  "upload_payload body =
     (let bdata = field (Some body) ''data''
      in if truthy bdata \<and> (truthy (field bdata ''meta'') \<or> truthy (field bdata ''basics''))
         then Some (entries_of bdata, as_string (field (Some body) ''title''))
         else if truthy (field (Some body) ''meta'') \<or> truthy (field (Some body) ''basics'')
         then Some (entries_of (Some body), None)
         else None)"

definition POST_upload :: "fault \<Rightarrow> db \<Rightarrow> json \<Rightarrow> response \<times> db" where
  "POST_upload f s body =
     (if body = JNull then (Response 500 (Error (Thrown TypeError)), s)
      else
     (case upload_payload body of
        None \<Rightarrow> (Response 400 (Error Invalid_payload), s)
      | Some (d, t) \<Rightarrow>
          let code = field (field (Some (JObj d)) ''meta'') ''code'';
              meta_code1 = (if truthy code then as_string code else None)
          in if \<not> given meta_code1 then (Response 400 (Error Missing_meta_code), s)
             else
               let title1 = (if \<not> given t
                             then display_name d ''Untitled Resume'' @ upload_separator @ the meta_code1
                             else the t)
               in
               (case findOne_meta_code s (the meta_code1) of
                  Some existingResume \<Rightarrow>
                    let nextVersion = current_version existingResume + 1;
                        changedSections = diffSections (Some (data existingResume)) d;
                        changeSummary = generateChangeSummary changedSections
                    in (case ResumeVersion_create f 1
                               \<lparr>resume_id = rid existingResume, version_number = nextVersion,
                                vdata = d, changed_sections = changedSections,
                                change_summary = Some changeSummary, change_type = Upload\<rparr> s of
                          Inl e \<Rightarrow> (Response 500 (Error (Thrown e)), s)
                        | Inr s1 \<Rightarrow>
                            let r = existingResume\<lparr>data := d, current_version := nextVersion,
                                                    title := title1\<rparr>
                            in (case save f 2 r s1 of
                                  Inl e \<Rightarrow> (Response 500 (Error (Thrown e)), s1)
                                | Inr s2 \<Rightarrow> (Response 200 (Action ''updated'' r), s2)))
                | None \<Rightarrow>
                    (case Resume_create f 1 (the meta_code1) title1 d 1 s of
                       Inl e \<Rightarrow> (Response 500 (Error (Thrown e)), s)
                     | Inr (newResume, s1) \<Rightarrow>
                         (case ResumeVersion_create f 2
                                 \<lparr>resume_id = rid newResume, version_number = 1, vdata = d,
                                  changed_sections = map fst d,
                                  change_summary = Some ''Initial upload'',
                                  change_type = Upload\<rparr> s1 of
                            Inl e \<Rightarrow> (Response 500 (Error (Thrown e)), s1)
                          | Inr s2 \<Rightarrow> (Response 201 (Action ''created'' newResume), s2))))))"

section \<open>Rollback: \<^verbatim>\<open>POST /api/resumes/[id]/versions\<close>\<close>

text \<open>
  The body's \<^verbatim>\<open>version_number\<close> is a non-negative integer, or missing; \<^verbatim>\<open>parseInt\<close> and the
  template literal then agree on its decimal form.
\<close>

record rollback_body =
  rb_version_number :: "nat option"

definition POST_versions :: "fault \<Rightarrow> db \<Rightarrow> nat \<Rightarrow> rollback_body \<Rightarrow> response \<times> db" where
  "POST_versions f s i body =
     (case rb_version_number body of
        None \<Rightarrow> (Response 400 (Error Missing_version_number), s)
      | Some n \<Rightarrow>
          if n = 0 then (Response 400 (Error Missing_version_number), s)
          else
          (case findVersion s i n of
             None \<Rightarrow> (Response 404 (Error (Version_not_found n)), s)
           | Some targetVersion \<Rightarrow>
          (case findById s i of
             None \<Rightarrow> (Response 404 (Error Resume_not_found), s)
           | Some resume \<Rightarrow>
               let changedSections = diffSections (Some (data resume)) (vdata targetVersion);
                   nextVersion = current_version resume + 1
               in (case ResumeVersion_create f 1
                          \<lparr>resume_id = i, version_number = nextVersion,
                           vdata = vdata targetVersion, changed_sections = changedSections,
                           change_summary = Some (''Rolled back to v'' @ show_nat n),
                           change_type = Rollback\<rparr> s of
                     Inl e \<Rightarrow> (Response 500 (Error (Thrown e)), s)
                   | Inr s1 \<Rightarrow>
                       let r = resume\<lparr>data := vdata targetVersion, current_version := nextVersion\<rparr>
                       in (case save f 2 r s1 of
                             Inl e \<Rightarrow> (Response 500 (Error (Thrown e)), s1)
                           | Inr s2 \<Rightarrow> (Response 200 (Rolled_back r nextVersion), s2))))))"

section \<open>The write operations together\<close>

datatype request =
    Create create_body
  | Replace nat put_body
  | PartialUpdate nat patch_body
  | Ingest json
  | RollbackTo nat rollback_body

fun handle :: "fault \<Rightarrow> db \<Rightarrow> request \<Rightarrow> response \<times> db" where
  "handle f s (Create body) = POST_resumes f s body"
| "handle f s (Replace i body) = PUT f s i body"
| "handle f s (PartialUpdate i body) = PATCH f s i body"
| "handle f s (Ingest body) = POST_upload f s body"
| "handle f s (RollbackTo i body) = POST_versions f s i body"

section \<open>Store invariants and a running example\<close>

text \<open>
  What every store reached by requests that did not fail satisfies (\<open>consistent_empty_db\<close>,
  \<open>consistent_kept\<close>): ids are unique and below the next id to hand out, and no version row
  is numbered above its document's \<open>current_version\<close>.
\<close>

definition consistent :: "db \<Rightarrow> bool" where
  "consistent s =
     (distinct (map rid (resumes s)) \<and>
      (\<forall>r \<in> set (resumes s). rid r < next_id s) \<and>
      (\<forall>v \<in> set (versions s). resume_id v < next_id s) \<and>
      (\<forall>v \<in> set (versions s). \<forall>r \<in> set (resumes s).
          resume_id v = rid r \<longrightarrow> version_number v \<le> current_version r))"

definition empty_db :: db where
  "empty_db = \<lparr>resumes = [], versions = [], next_id = 1\<rparr>"

text \<open>The scenario of the specification: version 1 is \<open>{"basics": {"name": "A"}}\<close>.\<close>

definition ex_v1 :: section_map where
  "ex_v1 = [(''basics'', JObj [(''name'', JStr ''A'')])]"

definition ex_v2 :: section_map where
  "ex_v2 = [(''basics'', JObj [(''name'', JStr ''B'')]), (''skills'', JArr [JStr ''x''])]"

definition ex_resume :: resume where
  "ex_resume = \<lparr>rid = 7, user_id = ''anonymous'', meta_code = ''SWE'', title = ''CV'',
                 data = ex_v1, current_version = 1\<rparr>"

definition ex_row1 :: resume_version where
  "ex_row1 = \<lparr>resume_id = 7, version_number = 1, vdata = ex_v1, changed_sections = [''basics''],
               change_summary = Some ''Initial upload'', change_type = Upload\<rparr>"

definition ex_db :: db where
  "ex_db = \<lparr>resumes = [ex_resume], versions = [ex_row1], next_id = 8\<rparr>"

definition ex_put :: put_body where
  "ex_put = \<lparr>pb_data = Some ex_v2, pb_title = None, pb_meta_code = None\<rparr>"

text \<open>
  The invariant of the data model: every document's \<open>data\<close> is the data of the version row
  numbered \<open>current_version\<close>.
\<close>

definition current_snapshot_stored :: "db \<Rightarrow> bool" where
  "current_snapshot_stored s =
     (\<forall>r \<in> set (resumes s).
        \<exists>v. findVersion s (rid r) (current_version r) = Some v \<and> vdata v = data r)"

text \<open>\<^verbatim>\<open>ResumeVersion.find({ resume_id: id })\<close>: the rows of one document, oldest first.\<close>

definition find_versions :: "db \<Rightarrow> nat \<Rightarrow> resume_version list" where
  "find_versions s i = filter (\<lambda>v. resume_id v = i) (versions s)"

fun is_partial :: "request \<Rightarrow> bool" where
  "is_partial (PartialUpdate i b) = True"
| "is_partial _ = False"

definition ex_patch :: patch_body where
  "ex_patch = \<lparr>p_section = Some (JStr ''skills''), p_value = Some (JArr [JStr ''y'']),
               p_sections = None, p_title = None\<rparr>"

definition ex_db2 :: db where
  "ex_db2 = snd (PUT NoFault ex_db 7 ex_put)"

definition ex_rollback :: rollback_body where
  "ex_rollback = \<lparr>rb_version_number = Some 1\<rparr>"


text \<open>An upload, and a create with the classifier at top level.\<close>

definition ex_upload_data :: section_map where
  "ex_upload_data = [(''meta'', JObj [(''code'', JStr ''SWE'')]),
                     (''basics'', JObj [(''name'', JObj [(''full'', JStr ''John Doe'')])])]"

definition ex_upload :: json where
  "ex_upload = JObj ex_upload_data"

definition ex_uploaded :: db where
  "ex_uploaded = snd (POST_upload NoFault empty_db ex_upload)"

definition ex_create :: create_body where
  "ex_create = \<lparr>cb_meta_code = Some ''SWE'', cb_title = Some ''CV'', cb_data = Some ex_v1\<rparr>"

section \<open>Two requests at once\<close>

text \<open>
  A handler runs until its next \<^verbatim>\<open>await\<close> on the store; there another request may run. So
  the steps of a Replace are its store calls: the read (\<^verbatim>\<open>findById\<close>, with the diff that
  follows it in the same turn), the append (\<^verbatim>\<open>ResumeVersion.create\<close>) and the save. Between
  them the request holds its own copy of the document, \<open>currentResume\<close>.

  \<^verbatim>\<open>save()\<close> writes the paths the handler assigned (\<open>data\<close> and \<open>current_version\<close>, and
  \<open>title\<close> and \<open>meta_code\<close> when given) into the stored document, not the whole copy; for a
  request that runs alone this is the same as \<open>save\<close> above (\<open>put_steps_alone\<close>).
  A read looks at the documents only, so it finds the same whether or not the other
  request has appended its row (\<open>read_ignores_versions\<close>).
\<close>

datatype put_state =
    Start put_body
  | Appending resume section_map put_body
  | Saving resume section_map put_body
  | Saving_title resume put_body
  | Done response

definition save_paths :: "nat \<Rightarrow> (resume \<Rightarrow> resume) \<Rightarrow> db \<Rightarrow> db" where
  "save_paths i assigned s =
     s\<lparr>resumes := map (\<lambda>x. if rid x = i then assigned x else x) (resumes s)\<rparr>"

fun put_step :: "nat \<Rightarrow> put_state \<Rightarrow> db \<Rightarrow> put_state \<times> db" where
  "put_step i (Start body) s =
     (case pb_data body of
        None \<Rightarrow> (Done (Response 400 (Error Missing_data)), s)
      | Some d \<Rightarrow>
     (case findById s i of
        None \<Rightarrow> (Done (Response 404 (Error Resume_not_found)), s)
      | Some currentResume \<Rightarrow>
          if length (diffSections (Some (data currentResume)) d) = 0 then
            if given (pb_title body) \<or> given (pb_meta_code body)
            then (Saving_title currentResume body, s)
            else (Done (Response 200 (No_change currentResume)), s)
          else (Appending currentResume d body, s)))"
| "put_step i (Appending currentResume d body) s =
     (let changedSections = diffSections (Some (data currentResume)) d;
          changeSummary = generateChangeSummary changedSections;
          nextVersion = current_version currentResume + 1
      in (case ResumeVersion_create NoFault 1
                 \<lparr>resume_id = i, version_number = nextVersion, vdata = d,
                  changed_sections = changedSections, change_summary = Some changeSummary,
                  change_type = Edit\<rparr> s of
            Inl e \<Rightarrow> (Done (Response 500 (Error (Thrown e))), s)
          | Inr s1 \<Rightarrow> (Saving currentResume d body, s1)))"
| "put_step i (Saving currentResume d body) s =
     (let assigned = (\<lambda>x. assign_meta_code (pb_meta_code body) (assign_title (pb_title body)
                          (x\<lparr>data := d, current_version := current_version currentResume + 1\<rparr>)))
      in (Done (Response 200 (Data (assigned currentResume))), save_paths i assigned s))"
| "put_step i (Saving_title currentResume body) s =
     (let assigned = (\<lambda>x. assign_meta_code (pb_meta_code body) (assign_title (pb_title body) x))
      in (Done (Response 200 (No_change (assigned currentResume))), save_paths i assigned s))"
| "put_step i (Done r) s = (Done r, s)"

text \<open>A schedule says whose turn it is: \<open>True\<close> the first request, \<open>False\<close> the second.\<close>

fun run2 :: "nat \<Rightarrow> bool list \<Rightarrow> put_state \<Rightarrow> put_state \<Rightarrow> db \<Rightarrow> put_state \<times> put_state \<times> db" where
  "run2 i [] a b s = (a, b, s)"
| "run2 i (True # sched) a b s = (case put_step i a s of (a', s') \<Rightarrow> run2 i sched a' b s')"
| "run2 i (False # sched) a b s = (case put_step i b s of (b', s') \<Rightarrow> run2 i sched a b' s')"



text \<open>
  What a Replace of data \<open>d\<close> writes, from the copy \<open>cur\<close> it read: the row, and the paths
  it saves.
\<close>

definition edit_row :: "nat \<Rightarrow> resume \<Rightarrow> section_map \<Rightarrow> resume_version" where
  "edit_row i cur d =
     \<lparr>resume_id = i, version_number = current_version cur + 1, vdata = d,
      changed_sections = diffSections (Some (data cur)) d,
      change_summary = Some (generateChangeSummary (diffSections (Some (data cur)) d)),
      change_type = Edit\<rparr>"

definition put_assigned :: "resume \<Rightarrow> section_map \<Rightarrow> put_body \<Rightarrow> resume \<Rightarrow> resume" where
  "put_assigned cur d body x =
     assign_meta_code (pb_meta_code body) (assign_title (pb_title body)
       (x\<lparr>data := d, current_version := current_version cur + 1\<rparr>))"



definition appended :: "nat \<Rightarrow> resume \<Rightarrow> section_map \<Rightarrow> db \<Rightarrow> db" where
  "appended i cur d s = s\<lparr>versions := versions s @ [edit_row i cur d]\<rparr>"

definition advanced :: "nat \<Rightarrow> resume \<Rightarrow> section_map \<Rightarrow> put_body \<Rightarrow> db \<Rightarrow> db" where
  "advanced i cur d body s = save_paths i (put_assigned cur d body) (appended i cur d s)"


fun steps_left :: "put_state \<Rightarrow> nat" where
  "steps_left (Start body) = 3"
| "steps_left (Appending cur d body) = 2"
| "steps_left (Saving cur d body) = 1"
| "steps_left (Saving_title cur body) = 1"
| "steps_left (Done r) = 0"



section \<open>Lemmas on lookups\<close>

lemma find_append:
  "find P (xs @ ys) = (case find P xs of Some x \<Rightarrow> Some x | None \<Rightarrow> find P ys)"
  by (induction xs) auto

lemma find_SomeD: "find P xs = Some x \<Longrightarrow> x \<in> set xs \<and> P x"
  by (induction xs) (auto split: if_splits)

lemma findById_SomeD: "findById s i = Some r \<Longrightarrow> r \<in> set (resumes s) \<and> rid r = i"
  unfolding findById_def by (drule find_SomeD) simp

lemma findVersion_SomeD:
  "findVersion s i n = Some v \<Longrightarrow>
     v \<in> set (versions s) \<and> resume_id v = i \<and> version_number v = n"
  unfolding findVersion_def by (drule find_SomeD) simp

lemma find_rid_map:
  "rid r = j \<Longrightarrow>
   find (\<lambda>x. rid x = i) (map (\<lambda>x. if rid x = j then r else x) xs) =
     (if j = i then (case find (\<lambda>x. rid x = i) xs of None \<Rightarrow> None | Some y \<Rightarrow> Some r)
      else find (\<lambda>x. rid x = i) xs)"
  by (induction xs) auto

lemma no_version_beyond:
  assumes "consistent s" and "findById s i = Some cur"
  shows "findVersion s i (Suc (current_version cur)) = None"
proof (cases "findVersion s i (Suc (current_version cur))")
  case (Some v)
  from findVersion_SomeD [OF Some] findById_SomeD [OF assms(2)] assms(1)
  have "version_number v \<le> current_version cur"
    unfolding consistent_def by metis
  with findVersion_SomeD [OF Some] show ?thesis by simp
qed simp

lemma assign_keeps:
  "rid (assign_meta_code c (assign_title t r)) = rid r"
  "data (assign_meta_code c (assign_title t r)) = data r"
  "current_version (assign_meta_code c (assign_title t r)) = current_version r"
  by (simp_all add: assign_meta_code_def assign_title_def)

lemma consistent_ex_db: "consistent ex_db"
  by (simp add: consistent_def ex_db_def ex_resume_def ex_row1_def)

section \<open>The diff engine\<close>

lemma deepEqual_refl: "wf_json a \<Longrightarrow> deepEqual (Some a) (Some a)"
proof (induction a)
  case (JArr xs)
  then show ?case by (auto simp: list_all2_same list_all_iff)
next
  case (JObj kvs)
  then show ?case by (auto simp: list_all_iff)
qed simp_all

lemma wf_section_map_lookup:
  "wf_section_map X \<Longrightarrow> map_of X k = Some v \<Longrightarrow> wf_json v"
  by (auto simp: wf_section_map_def list_all_iff dest: map_of_SomeD)

lemma deepEqual_lookup_refl:
  "wf_section_map X \<Longrightarrow> deepEqual (map_of X k) (map_of X k)"
  by (cases "map_of X k") (auto intro: deepEqual_refl wf_section_map_lookup)

lemma diffSections_same: "wf_section_map X \<Longrightarrow> diffSections (Some X) X = []"
  by (simp add: diffSections_def filter_empty_conv deepEqual_lookup_refl)

lemma set_new_Set_aux: "set (foldl set_add acc ks) = set acc \<union> set ks"
  by (induction ks arbitrary: acc) (auto simp: set_add_def)

lemma set_new_Set: "set (new_Set ks) = set ks"
  by (simp add: new_Set_def set_new_Set_aux)

lemma spec_equal_deepEqual:
  "wf_json a \<Longrightarrow> wf_json b \<Longrightarrow> spec_deep_equal a b \<Longrightarrow> deepEqual (Some a) (Some b)"
proof (induction a arbitrary: b)
  case (JArr xs)
  then obtain ys where b: "b = JArr ys" by (cases b) auto
  with JArr.prems have l: "list_all2 spec_deep_equal xs ys" by simp
  have "list_all2 (\<lambda>x y. deepEqual (Some x) (Some y)) xs ys"
  proof (rule list_all2_all_nthI)
    show "length xs = length ys" using l by (rule list_all2_lengthD)
    fix n assume n: "n < length xs"
    with l have m: "n < length ys" by (simp add: list_all2_lengthD)
    from n have "xs ! n \<in> set xs" by simp
    moreover from n JArr.prems(1) have "wf_json (xs ! n)" by (simp add: list_all_length)
    moreover from m JArr.prems(2) b have "wf_json (ys ! n)" by (simp add: list_all_length)
    moreover from l n have "spec_deep_equal (xs ! n) (ys ! n)" by (rule list_all2_nthD)
    ultimately show "deepEqual (Some (xs ! n)) (Some (ys ! n))" by (rule JArr.IH)
  qed
  with l b show ?case by (simp add: list_all2_lengthD)
next
  case (JObj kvs)
  then obtain kvs' where b: "b = JObj kvs'" by (cases b) auto
  from JObj.prems b have keys: "set (map fst kvs) = set (map fst kvs')"
    and d: "distinct (map fst kvs)" and d': "distinct (map fst kvs')" by simp_all
  have "length kvs = card (set (map fst kvs))" using distinct_card [OF d] by simp
  also have "\<dots> = card (set (map fst kvs'))" using keys by simp
  also have "\<dots> = length kvs'" using distinct_card [OF d'] by simp
  finally have len: "length kvs = length kvs'" .
  have "deepEqual (Some v) (map_of kvs' k)" if kv: "(k, v) \<in> set kvs" for k v
  proof -
    from kv JObj.prems(3) b obtain w where w: "map_of kvs' k = Some w" "spec_deep_equal v w"
      by (auto simp: list_all_iff split: option.splits)
    from w(1) JObj.prems(2) b have "wf_json w"
      by (auto simp: list_all_iff dest: map_of_SomeD)
    moreover from kv JObj.prems(1) have "wf_json v" by (auto simp: list_all_iff)
    ultimately have "deepEqual (Some v) (Some w)"
      using kv w(2) by (intro JObj.IH [of "(k, v)" v]) auto
    with w(1) show ?thesis by simp
  qed
  with len b show ?case by (auto simp: list_all_iff)
qed (auto)

lemma spec_section_equal_deepEqual:
  assumes "wf_section_map prev" "wf_section_map nxt"
    and "spec_section_equal (map_of prev k) (map_of nxt k)"
  shows "deepEqual (map_of prev k) (map_of nxt k)"
proof (cases "map_of prev k")
  case None
  with assms(3) show ?thesis by (cases "map_of nxt k") auto
next
  case (Some a)
  with assms(3) obtain b where b: "map_of nxt k = Some b" "spec_deep_equal a b"
    by (cases "map_of nxt k") auto
  from Some assms(1) have "wf_json a" by (rule wf_section_map_lookup [rotated])
  moreover from b(1) assms(2) have "wf_json b" by (rule wf_section_map_lookup [rotated])
  ultimately show ?thesis using Some b by (simp add: spec_equal_deepEqual)
qed

lemma diffSections_within_spec:
  assumes "wf_section_map prev" "wf_section_map nxt"
  shows "set (diffSections (Some prev) nxt) \<subseteq> spec_diffSections (Some prev) nxt"
  using spec_section_equal_deepEqual [OF assms]
  by (auto simp: diffSections_def spec_diffSections_def set_new_Set)

lemma diffSections_absent: "set (diffSections None nxt) = spec_diffSections None nxt"
  by (simp add: diffSections_def spec_diffSections_def)

section \<open>Object spread\<close>



section \<open>What a request can leave behind\<close>

lemma findVersion_other_fields [simp]:
  "findVersion (s\<lparr>resumes := rs\<rparr>) i n = findVersion s i n"
  "findVersion (s\<lparr>next_id := k\<rparr>) i n = findVersion s i n"
  by (simp_all add: findVersion_def)

lemma findById_other_fields [simp]:
  "findById (s\<lparr>versions := vs\<rparr>) i = findById s i"
  "findById (s\<lparr>next_id := k\<rparr>) i = findById s i"
  by (simp_all add: findById_def)

lemma append_then_save_cases [consumes 1, case_names unchanged appended advanced]:
  assumes run: "(case ResumeVersion_create f 1 row s of
                   Inl e \<Rightarrow> (Response 500 (Error (Thrown e)), s)
                 | Inr s1 \<Rightarrow>
                     (case save f 2 r s1 of
                        Inl e \<Rightarrow> (Response 500 (Error (Thrown e)), s1)
                      | Inr s2 \<Rightarrow> (ok, s2))) = (resp, s')"
  obtains
    (unchanged) "s' = s"
  | (appended) "f = FailWrite 2" "\<not> succeeded resp"
      "findVersion s (resume_id row) (version_number row) = None"
      "resumes s' = resumes s" "versions s' = versions s @ [row]" "next_id s' = next_id s"
  | (advanced) "resp = ok"
      "findVersion s (resume_id row) (version_number row) = None"
      "resumes s' = map (\<lambda>x. if rid x = rid r then r else x) (resumes s)"
      "versions s' = versions s @ [row]" "next_id s' = next_id s"
proof (cases "f = FailWrite 1 \<or> findVersion s (resume_id row) (version_number row) \<noteq> None")
  case True
  with run have "s' = s"
    by (auto simp: ResumeVersion_create_def split: if_splits)
  then show ?thesis by (rule unchanged)
next
  case ok1: False
  show ?thesis
  proof (cases "f = FailWrite 2")
    case True
    with run ok1 have "s' = s\<lparr>versions := versions s @ [row]\<rparr> \<and> \<not> succeeded resp"
      by (auto simp: ResumeVersion_create_def save_def succeeded_def split: if_splits)
    then show ?thesis
      using ok1 True by (intro appended) simp_all
  next
    case False
    with run ok1 have "s' = s\<lparr>versions := versions s @ [row],
        resumes := map (\<lambda>x. if rid x = rid r then r else x) (resumes s)\<rparr> \<and> resp = ok"
      by (auto simp: ResumeVersion_create_def save_def split: if_splits)
    then show ?thesis
      using ok1 by (intro advanced) simp_all
  qed
qed

lemma create_then_append_cases [consumes 1, case_names unchanged doc_only created]:
  assumes run: "(case Resume_create f 1 mc t d cv s of
                   Inl e \<Rightarrow> (Response 500 (Error (Thrown e)), s)
                 | Inr (newResume, s1) \<Rightarrow>
                     (case ResumeVersion_create f 2 (row newResume) s1 of
                        Inl e \<Rightarrow> (Response 500 (Error (Thrown e)), s1)
                      | Inr s2 \<Rightarrow> (ok newResume, s2))) = (resp, s')"
  obtains
    (unchanged) "s' = s"
  | (doc_only) r where "\<not> succeeded resp" "rid r = next_id s" "current_version r = cv"
      "data r = d" "meta_code r = mc" "title r = t"
      "resumes s' = resumes s @ [r]" "versions s' = versions s" "next_id s' = Suc (next_id s)"
  | (created) r where "resp = ok r" "rid r = next_id s" "current_version r = cv"
      "data r = d" "meta_code r = mc" "title r = t"
      "findVersion s (resume_id (row r)) (version_number (row r)) = None"
      "resumes s' = resumes s @ [r]" "versions s' = versions s @ [row r]"
      "next_id s' = Suc (next_id s)"
proof (cases "f = FailWrite 1")
  case True
  with run have "s' = s" by (simp add: Resume_create_def)
  then show ?thesis by (rule unchanged)
next
  case ok1: False
  let ?r = "\<lparr>rid = next_id s, user_id = ''anonymous'', meta_code = mc, title = t,
             data = d, current_version = cv\<rparr>"
  let ?s1 = "s\<lparr>resumes := resumes s @ [?r], next_id := Suc (next_id s)\<rparr>"
  show ?thesis
  proof (cases "f = FailWrite 2 \<or>
                findVersion s (resume_id (row ?r)) (version_number (row ?r)) \<noteq> None")
    case True
    with run ok1 have "s' = ?s1 \<and> \<not> succeeded resp"
      by (auto simp: Resume_create_def ResumeVersion_create_def Let_def succeeded_def
            split: if_splits)
    then show ?thesis
      by (intro doc_only [of ?r]) simp_all
  next
    case False
    with run ok1 have "s' = ?s1\<lparr>versions := versions s @ [row ?r]\<rparr> \<and> resp = ok ?r"
      by (auto simp: Resume_create_def ResumeVersion_create_def Let_def split: if_splits)
    then show ?thesis
      using False by (intro created [of ?r]) simp_all
  qed
qed

lemma PUT_cases [consumes 1, case_names unchanged saved appended advanced]:
  assumes run: "PUT f s i body = (resp, s')"
  obtains
    (unchanged) "s' = s"
  | (saved) cur r where
      "findById s i = Some cur" "rid r = i" "current_version r = current_version cur"
      "data r = data cur"
      "resumes s' = map (\<lambda>x. if rid x = i then r else x) (resumes s)"
      "versions s' = versions s" "next_id s' = next_id s"
  | (appended) cur row where
      "f = FailWrite 2" "\<not> succeeded resp"
      "findById s i = Some cur" "resume_id row = i"
      "version_number row = Suc (current_version cur)"
      "findVersion s i (Suc (current_version cur)) = None"
      "resumes s' = resumes s" "versions s' = versions s @ [row]" "next_id s' = next_id s"
  | (advanced) cur row r where
      "succeeded resp"
      "findById s i = Some cur" "resume_id row = i"
      "version_number row = Suc (current_version cur)"
      "findVersion s i (Suc (current_version cur)) = None"
      "rid r = i" "current_version r = Suc (current_version cur)" "data r = vdata row"
      "resumes s' = map (\<lambda>x. if rid x = i then r else x) (resumes s)"
      "versions s' = versions s @ [row]" "next_id s' = next_id s"
proof (cases "pb_data body")
  case None
  with run have "s' = s" by (simp add: PUT_def)
  then show ?thesis by (rule unchanged)
next
  case d: (Some d)
  show ?thesis
  proof (cases "findById s i")
    case None
    with run d have "s' = s" by (simp add: PUT_def)
    then show ?thesis by (rule unchanged)
  next
    case cur: (Some cur)
    have rid: "rid cur = i" using findById_SomeD [OF cur] by simp
    show ?thesis
    proof (cases "diffSections (Some (data cur)) d = []")
      case True
      let ?r = "assign_meta_code (pb_meta_code body) (assign_title (pb_title body) cur)"
      show ?thesis
      proof (cases "(given (pb_title body) \<or> given (pb_meta_code body)) \<and> f \<noteq> FailWrite 1")
        case False
        with run d cur True have "s' = s"
          by (auto simp: PUT_def Let_def save_def split: if_splits)
        then show ?thesis by (rule unchanged)
      next
        case upd: True
        with run d cur True have "s' = s\<lparr>resumes := map (\<lambda>x. if rid x = i then ?r else x) (resumes s)\<rparr>"
          by (auto simp: PUT_def Let_def save_def assign_keeps rid split: if_splits)
        then show ?thesis
          using cur rid by (intro saved [of cur ?r]) (simp_all add: assign_keeps)
      qed
    next
      case False
      let ?row = "\<lparr>resume_id = i, version_number = current_version cur + 1, vdata = d,
                    changed_sections = diffSections (Some (data cur)) d,
                    change_summary = Some (generateChangeSummary (diffSections (Some (data cur)) d)),
                    change_type = Edit\<rparr>"
      let ?r = "assign_meta_code (pb_meta_code body) (assign_title (pb_title body)
                  (cur\<lparr>data := d, current_version := current_version cur + 1\<rparr>))"
      show ?thesis
      proof (cases "f = FailWrite 1 \<or> findVersion s i (Suc (current_version cur)) \<noteq> None")
        case True
        with run d cur False have "s' = s"
          by (auto simp: PUT_def Let_def ResumeVersion_create_def split: if_splits)
        then show ?thesis by (rule unchanged)
      next
        case ok1: False
        show ?thesis
        proof (cases "f = FailWrite 2")
          case True
          with run d cur False ok1
          have "s' = s\<lparr>versions := versions s @ [?row]\<rparr> \<and> \<not> succeeded resp"
            by (auto simp: PUT_def Let_def ResumeVersion_create_def save_def succeeded_def split: if_splits)
          then show ?thesis
            using cur ok1 True by (intro appended [of cur ?row]) simp_all
        next
          case ok2: False
          with run d cur False ok1
          have "s' = s\<lparr>versions := versions s @ [?row],
                        resumes := map (\<lambda>x. if rid x = i then ?r else x) (resumes s)\<rparr>
                \<and> succeeded resp"
            by (auto simp: PUT_def Let_def ResumeVersion_create_def save_def succeeded_def
                  assign_keeps rid split: if_splits)
          then show ?thesis
            using cur ok1 rid by (intro advanced [of cur ?row ?r]) (simp_all add: assign_keeps)
        qed
      qed
    qed
  qed
qed


lemma POST_versions_cases [consumes 1, case_names unchanged appended advanced]:
  assumes run: "POST_versions f s i body = (resp, s')"
  obtains
    (unchanged) "s' = s"
  | (appended) cur row where
      "f = FailWrite 2" "\<not> succeeded resp"
      "findById s i = Some cur" "resume_id row = i"
      "version_number row = Suc (current_version cur)"
      "findVersion s i (Suc (current_version cur)) = None"
      "resumes s' = resumes s" "versions s' = versions s @ [row]" "next_id s' = next_id s"
  | (advanced) cur row r where
      "succeeded resp"
      "findById s i = Some cur" "resume_id row = i"
      "version_number row = Suc (current_version cur)"
      "findVersion s i (Suc (current_version cur)) = None"
      "rid r = i" "current_version r = Suc (current_version cur)" "data r = vdata row"
      "resumes s' = map (\<lambda>x. if rid x = i then r else x) (resumes s)"
      "versions s' = versions s @ [row]" "next_id s' = next_id s"
proof (cases "\<exists>n tv cur. rb_version_number body = Some n \<and> n \<noteq> 0 \<and>
                findVersion s i n = Some tv \<and> findById s i = Some cur")
  case False
  with run have "s' = s"
    by (auto simp: POST_versions_def split: option.splits if_splits)
  then show ?thesis by (rule unchanged)
next
  case True
  then obtain n tv cur where n: "rb_version_number body = Some n" "n \<noteq> 0"
    and tv: "findVersion s i n = Some tv" and cur: "findById s i = Some cur"
    by blast
  have rid: "rid cur = i" using findById_SomeD [OF cur] by simp
  let ?row = "\<lparr>resume_id = i, version_number = current_version cur + 1,
                vdata = vdata tv,
                changed_sections = diffSections (Some (data cur)) (vdata tv),
                change_summary = Some (''Rolled back to v'' @ show_nat n),
                change_type = Rollback\<rparr>"
  let ?r = "cur\<lparr>data := vdata tv, current_version := current_version cur + 1\<rparr>"
  let ?ok = "Response 200 (Rolled_back ?r (current_version cur + 1))"
  from run n tv cur
  have "(case ResumeVersion_create f 1 ?row s of
           Inl e \<Rightarrow> (Response 500 (Error (Thrown e)), s)
         | Inr s1 \<Rightarrow>
             (case save f 2 ?r s1 of
                Inl e \<Rightarrow> (Response 500 (Error (Thrown e)), s1)
              | Inr s2 \<Rightarrow> (?ok, s2))) = (resp, s')"
    by (simp add: POST_versions_def Let_def cong: sum.case_cong)
  then show ?thesis
  proof (cases rule: append_then_save_cases)
    case unchanged
    then show ?thesis by (rule that(1))
  next
    case appended
    then show ?thesis using cur by (intro that(2) [of cur ?row]) simp_all
  next
    case advanced
    then show ?thesis using cur rid
      by (intro that(3) [of cur ?row ?r]) (simp_all add: succeeded_def)
  qed
qed


lemma meta_code_assignment_keeps:
  "rid (meta_code_assignment c r) = rid r"
  "data (meta_code_assignment c r) = data r"
  "current_version (meta_code_assignment c r) = current_version r"
  by (simp_all add: meta_code_assignment_def split: option.splits)

lemma PATCH_cases [consumes 1, case_names unchanged saved]:
  assumes run: "PATCH f s i body = (resp, s')"
  obtains
    (unchanged) "s' = s"
  | (saved) cur r where
      "findById s i = Some cur" "rid r = i" "current_version r = current_version cur"
      "resp = Response 200 (Data r)"
      "resumes s' = map (\<lambda>x. if rid x = i then r else x) (resumes s)"
      "versions s' = versions s" "next_id s' = next_id s"
proof (cases "findById s i")
  case None
  with run have "s' = s" by (simp add: PATCH_def)
  then show ?thesis by (rule unchanged)
next
  case cur: (Some cur)
  have rid: "rid cur = i" using findById_SomeD [OF cur] by simp
  define finish where "finish = (\<lambda>r. case save f 1 r s of
                               Inl e \<Rightarrow> (Response 500 (Error (Thrown e)), s)
                             | Inr s' \<Rightarrow> (Response 200 (Data r), s'))"
  have fin: "thesis" if "finish r = (resp, s')" "rid r = i" "current_version r = current_version cur" for r
  proof (cases "f = FailWrite 1")
    case True
    with that have "s' = s" by (simp add: finish_def save_def)
    then show ?thesis by (rule unchanged)
  next
    case False
    with that have "s' = s\<lparr>resumes := map (\<lambda>x. if rid x = i then r else x) (resumes s)\<rparr>
        \<and> resp = Response 200 (Data r)"
      by (auto simp: finish_def save_def)
    then show ?thesis using cur that by (intro saved [of cur r]) simp_all
  qed
  from run cur have "s' = s \<or> (\<exists>r. finish r = (resp, s') \<and> rid r = i \<and>
                        current_version r = current_version cur)"
    unfolding PATCH_def Let_def finish_def [symmetric]
    by (auto simp: rid meta_code_assignment_keeps split: if_splits option.splits json.splits)
  then show ?thesis using fin unchanged by blast
qed


lemma findOne_meta_code_SomeD:
  "findOne_meta_code s c = Some r \<Longrightarrow> r \<in> set (resumes s) \<and> meta_code r = c"
  unfolding findOne_meta_code_def by (drule find_SomeD) simp

lemma POST_resumes_cases [consumes 1, case_names unchanged doc_only created]:
  assumes run: "POST_resumes f s body = (resp, s')"
  obtains
    (unchanged) "s' = s"
  | (doc_only) r where "\<not> succeeded resp" "rid r = next_id s" "current_version r = 1"
      "resumes s' = resumes s @ [r]" "versions s' = versions s" "next_id s' = Suc (next_id s)"
  | (created) r row where "succeeded resp" "rid r = next_id s" "current_version r = 1"
      "resume_id row = next_id s" "version_number row = 1" "vdata row = data r"
      "findVersion s (next_id s) 1 = None"
      "resumes s' = resumes s @ [r]" "versions s' = versions s @ [row]"
      "next_id s' = Suc (next_id s)"
proof (cases "cb_data body")
  case None
  with run have "s' = s" by (simp add: POST_resumes_def)
  then show ?thesis by (rule unchanged)
next
  case (Some d)
  define code where "code = field (field (Some (JObj d)) ''meta'') ''code''"
  define mc where "mc = (if \<not> given (cb_meta_code body) \<and> truthy code then as_string code
                         else cb_meta_code body)"
  define t where "t = (if \<not> given (cb_title body) then
                          (let name = display_name d ''Untitled''
                           in if given mc then name @ create_separator @ the mc else name)
                        else the (cb_title body))"
  show ?thesis
  proof (cases "given mc")
    case False
    with Some have "POST_resumes f s body = (Response 400 (Error Missing_meta_code), s)"
      unfolding POST_resumes_def Let_def mc_def code_def by simp
    with run have "s' = s" by simp
    then show ?thesis by (rule unchanged)
  next
    case True
    let ?row = "\<lambda>r. \<lparr>resume_id = rid r, version_number = 1, vdata = d,
                       changed_sections = [], change_summary = None, change_type = Edit\<rparr>"
    from Some True
    have "POST_resumes f s body =
          (case Resume_create f 1 (the mc) t d 1 s of
             Inl e \<Rightarrow> (Response 500 (Error (Thrown e)), s)
           | Inr (newResume, s1) \<Rightarrow>
               (case ResumeVersion_create f 2 (?row newResume) s1 of
                  Inl e \<Rightarrow> (Response 500 (Error (Thrown e)), s1)
                | Inr s2 \<Rightarrow> (Response 201 (Data newResume), s2)))"
      unfolding POST_resumes_def Let_def mc_def t_def code_def by simp
    with run have "(case Resume_create f 1 (the mc) t d 1 s of
             Inl e \<Rightarrow> (Response 500 (Error (Thrown e)), s)
           | Inr (newResume, s1) \<Rightarrow>
               (case ResumeVersion_create f 2 (?row newResume) s1 of
                  Inl e \<Rightarrow> (Response 500 (Error (Thrown e)), s1)
                | Inr s2 \<Rightarrow> (Response 201 (Data newResume), s2))) = (resp, s')"
      by simp
    then show ?thesis
    proof (cases rule: create_then_append_cases)
      case unchanged
      then show ?thesis by (rule that(1))
    next
      case (doc_only r)
      then show ?thesis by (intro that(2) [of r]) simp_all
    next
      case (created r)
      then show ?thesis by (intro that(3) [of r "?row r"]) (simp_all add: succeeded_def)
    qed
  qed
qed

lemma POST_upload_cases
  [consumes 1, case_names unchanged appended advanced doc_only created]:
  assumes run: "POST_upload f s body = (resp, s')"
  obtains
    (unchanged) "s' = s"
  | (appended) cur row where
      "f = FailWrite 2" "\<not> succeeded resp"
      "cur \<in> set (resumes s)" "resume_id row = rid cur"
      "version_number row = Suc (current_version cur)"
      "findVersion s (rid cur) (Suc (current_version cur)) = None"
      "resumes s' = resumes s" "versions s' = versions s @ [row]" "next_id s' = next_id s"
  | (advanced) cur row r where
      "succeeded resp"
      "cur \<in> set (resumes s)" "resume_id row = rid cur"
      "version_number row = Suc (current_version cur)"
      "findVersion s (rid cur) (Suc (current_version cur)) = None"
      "rid r = rid cur" "current_version r = Suc (current_version cur)" "data r = vdata row"
      "resumes s' = map (\<lambda>x. if rid x = rid cur then r else x) (resumes s)"
      "versions s' = versions s @ [row]" "next_id s' = next_id s"
  | (doc_only) r where "\<not> succeeded resp" "rid r = next_id s" "current_version r = 1"
      "resumes s' = resumes s @ [r]" "versions s' = versions s" "next_id s' = Suc (next_id s)"
  | (created) r row where "succeeded resp" "rid r = next_id s" "current_version r = 1"
      "resume_id row = next_id s" "version_number row = 1" "vdata row = data r"
      "findVersion s (next_id s) 1 = None"
      "resumes s' = resumes s @ [r]" "versions s' = versions s @ [row]"
      "next_id s' = Suc (next_id s)"
proof (cases "body = JNull \<or> upload_payload body = None")
  case True
  with run have "s' = s" by (auto simp: POST_upload_def split: if_splits)
  then show ?thesis by (rule unchanged)
next
  case False
  then obtain d t where nn: "body \<noteq> JNull" and pl: "upload_payload body = Some (d, t)"
    by auto
  define code where "code = field (field (Some (JObj d)) ''meta'') ''code''"
  define mc where "mc = (if truthy code then as_string code else None)"
  define t1 where "t1 = (if \<not> given t
                         then display_name d ''Untitled Resume'' @ upload_separator @ the mc
                         else the t)"
  show ?thesis
  proof (cases "given mc")
    case False
    with nn pl have "POST_upload f s body = (Response 400 (Error Missing_meta_code), s)"
      unfolding POST_upload_def Let_def mc_def code_def by simp
    with run have "s' = s" by simp
    then show ?thesis by (rule unchanged)
  next
    case mc: True
    show ?thesis
    proof (cases "findOne_meta_code s (the mc)")
      case None
      let ?row = "\<lambda>r. \<lparr>resume_id = rid r, version_number = 1, vdata = d,
                       changed_sections = map fst d, change_summary = Some ''Initial upload'',
                       change_type = Upload\<rparr>"
      from nn pl mc None
      have "POST_upload f s body =
            (case Resume_create f 1 (the mc) t1 d 1 s of
               Inl e \<Rightarrow> (Response 500 (Error (Thrown e)), s)
             | Inr (newResume, s1) \<Rightarrow>
                 (case ResumeVersion_create f 2 (?row newResume) s1 of
                    Inl e \<Rightarrow> (Response 500 (Error (Thrown e)), s1)
                  | Inr s2 \<Rightarrow> (Response 201 (Action ''created'' newResume), s2)))"
        unfolding POST_upload_def Let_def mc_def t1_def code_def by simp
      with run have "(case Resume_create f 1 (the mc) t1 d 1 s of
               Inl e \<Rightarrow> (Response 500 (Error (Thrown e)), s)
             | Inr (newResume, s1) \<Rightarrow>
                 (case ResumeVersion_create f 2 (?row newResume) s1 of
                    Inl e \<Rightarrow> (Response 500 (Error (Thrown e)), s1)
                  | Inr s2 \<Rightarrow> (Response 201 (Action ''created'' newResume), s2))) = (resp, s')"
        by simp
      then show ?thesis
      proof (cases rule: create_then_append_cases)
        case unchanged
        then show ?thesis by (rule that(1))
      next
        case (doc_only r)
        then show ?thesis by (intro that(4) [of r]) simp_all
      next
        case (created r)
        then show ?thesis by (intro that(5) [of r "?row r"]) (simp_all add: succeeded_def)
      qed
    next
      case (Some cur)
      let ?row = "\<lparr>resume_id = rid cur, version_number = current_version cur + 1,
                  vdata = d, changed_sections = diffSections (Some (data cur)) d,
                  change_summary = Some (generateChangeSummary (diffSections (Some (data cur)) d)),
                  change_type = Upload\<rparr>"
      let ?r = "cur\<lparr>data := d, current_version := current_version cur + 1, title := t1\<rparr>"
      from nn pl mc Some
      have "POST_upload f s body =
            (case ResumeVersion_create f 1 ?row s of
               Inl e \<Rightarrow> (Response 500 (Error (Thrown e)), s)
             | Inr s1 \<Rightarrow>
                 (case save f 2 ?r s1 of
                    Inl e \<Rightarrow> (Response 500 (Error (Thrown e)), s1)
                  | Inr s2 \<Rightarrow> (Response 200 (Action ''updated'' ?r), s2)))"
        unfolding POST_upload_def Let_def mc_def t1_def code_def by simp
      with run have "(case ResumeVersion_create f 1 ?row s of
               Inl e \<Rightarrow> (Response 500 (Error (Thrown e)), s)
             | Inr s1 \<Rightarrow>
                 (case save f 2 ?r s1 of
                    Inl e \<Rightarrow> (Response 500 (Error (Thrown e)), s1)
                  | Inr s2 \<Rightarrow> (Response 200 (Action ''updated'' ?r), s2))) = (resp, s')"
        by simp
      then show ?thesis
      proof (cases rule: append_then_save_cases)
        case unchanged
        then show ?thesis by (rule that(1))
      next
        case appended
        then show ?thesis using findOne_meta_code_SomeD [OF Some]
          by (intro that(2) [of cur ?row]) simp_all
      next
        case advanced
        then show ?thesis using findOne_meta_code_SomeD [OF Some]
          by (intro that(3) [of cur ?row ?r]) (simp_all add: succeeded_def)
      qed
    qed
  qed
qed

lemma handle_cases
  [consumes 1, case_names unchanged saved appended advanced doc_only created]:
  assumes run: "handle f s req = (resp, s')"
  obtains
    (unchanged) "s' = s"
  | (saved) cur r where
      "findById s (rid cur) = Some cur" "rid r = rid cur"
      "current_version r = current_version cur"
      "\<not> is_partial req \<Longrightarrow> data r = data cur"
      "resumes s' = map (\<lambda>x. if rid x = rid cur then r else x) (resumes s)"
      "versions s' = versions s" "next_id s' = next_id s"
  | (appended) cur row where
      "f = FailWrite 2" "\<not> succeeded resp"
      "cur \<in> set (resumes s)" "resume_id row = rid cur"
      "version_number row = Suc (current_version cur)"
      "findVersion s (rid cur) (Suc (current_version cur)) = None"
      "resumes s' = resumes s" "versions s' = versions s @ [row]" "next_id s' = next_id s"
  | (advanced) cur row r where
      "succeeded resp"
      "cur \<in> set (resumes s)" "resume_id row = rid cur"
      "version_number row = Suc (current_version cur)"
      "findVersion s (rid cur) (Suc (current_version cur)) = None"
      "rid r = rid cur" "current_version r = Suc (current_version cur)" "data r = vdata row"
      "resumes s' = map (\<lambda>x. if rid x = rid cur then r else x) (resumes s)"
      "versions s' = versions s @ [row]" "next_id s' = next_id s"
  | (doc_only) r where "\<not> succeeded resp" "rid r = next_id s" "current_version r = 1"
      "resumes s' = resumes s @ [r]" "versions s' = versions s" "next_id s' = Suc (next_id s)"
  | (created) r row where "succeeded resp" "rid r = next_id s" "current_version r = 1"
      "resume_id row = next_id s" "version_number row = 1" "vdata row = data r"
      "findVersion s (next_id s) 1 = None"
      "resumes s' = resumes s @ [r]" "versions s' = versions s @ [row]"
      "next_id s' = Suc (next_id s)"
proof (cases req)
  case (Create body)
  with run have "POST_resumes f s body = (resp, s')" by simp
  then show ?thesis
  proof (cases rule: POST_resumes_cases)
    case unchanged
    then show ?thesis by (rule that(1))
  next
    case (doc_only r)
    then show ?thesis by (intro that(5) [of r])
  next
    case (created r row)
    then show ?thesis by (intro that(6) [of r row])
  qed
next
  case (Replace i body)
  with run have "PUT f s i body = (resp, s')" by simp
  then show ?thesis
  proof (cases rule: PUT_cases)
    case unchanged
    then show ?thesis by (rule that(1))
  next
    case (saved cur r)
    then show ?thesis using findById_SomeD [of s i cur]
      by (intro that(2) [of cur r]) simp_all
  next
    case (appended cur row)
    then show ?thesis using findById_SomeD [of s i cur]
      by (intro that(3) [of cur row]) simp_all
  next
    case (advanced cur row r)
    then show ?thesis using findById_SomeD [of s i cur]
      by (intro that(4) [of cur row r]) simp_all
  qed
next
  case (PartialUpdate i body)
  with run have "PATCH f s i body = (resp, s')" by simp
  then show ?thesis
  proof (cases rule: PATCH_cases)
    case unchanged
    then show ?thesis by (rule that(1))
  next
    case (saved cur r)
    then show ?thesis using findById_SomeD [of s i cur] PartialUpdate
      by (intro that(2) [of cur r]) simp_all
  qed
next
  case (Ingest body)
  with run have "POST_upload f s body = (resp, s')" by simp
  then show ?thesis
  proof (cases rule: POST_upload_cases)
    case unchanged
    then show ?thesis by (rule that(1))
  next
    case (appended cur row)
    then show ?thesis by (intro that(3) [of cur row])
  next
    case (advanced cur row r)
    then show ?thesis by (intro that(4) [of cur row r])
  next
    case (doc_only r)
    then show ?thesis by (intro that(5) [of r])
  next
    case (created r row)
    then show ?thesis by (intro that(6) [of r row])
  qed
next
  case (RollbackTo i body)
  with run have "POST_versions f s i body = (resp, s')" by simp
  then show ?thesis
  proof (cases rule: POST_versions_cases)
    case unchanged
    then show ?thesis by (rule that(1))
  next
    case (appended cur row)
    then show ?thesis using findById_SomeD [of s i cur]
      by (intro that(3) [of cur row]) simp_all
  next
    case (advanced cur row r)
    then show ?thesis using findById_SomeD [of s i cur]
      by (intro that(4) [of cur row r]) simp_all
  qed
qed

lemma findVersion_appended:
  "versions s' = versions s @ [row] \<Longrightarrow>
   findVersion s' i n =
     (case findVersion s i n of
        Some x \<Rightarrow> Some x
      | None \<Rightarrow> if resume_id row = i \<and> version_number row = n then Some row else None)"
  by (simp add: findVersion_def find_append split: option.split)

lemma findVersion_same:
  "versions s' = versions s \<Longrightarrow> findVersion s' i n = findVersion s i n"
  by (simp add: findVersion_def)

lemma consistent_unique:
  assumes "consistent s" "a \<in> set (resumes s)" "b \<in> set (resumes s)" "rid a = rid b"
  shows "a = b"
proof -
  from assms(1) have "inj_on rid (set (resumes s))"
    unfolding consistent_def by (simp add: distinct_map)
  with assms(2-4) show ?thesis by (auto dest: inj_onD)
qed

lemma findById_saved:
  assumes "resumes s' = map (\<lambda>x. if rid x = j then r else x) (resumes s)" "rid r = j"
  shows "findById s' i =
     (if j = i then (case findById s i of None \<Rightarrow> None | Some y \<Rightarrow> Some r) else findById s i)"
  using assms by (simp add: findById_def find_rid_map)

lemma findById_added:
  assumes "resumes s' = resumes s @ [r]" "findById s i = Some d"
  shows "findById s' i = Some d"
  using assms by (simp add: findById_def find_append)

lemma findById_same:
  "resumes s' = resumes s \<Longrightarrow> findById s' i = findById s i"
  by (simp add: findById_def)

lemma find_versions_appended:
  "versions s' = versions s @ [row] \<Longrightarrow>
   find_versions s' i = find_versions s i @ (if resume_id row = i then [row] else [])"
  by (simp add: find_versions_def)

lemma find_versions_same:
  "versions s' = versions s \<Longrightarrow> find_versions s' i = find_versions s i"
  by (simp add: find_versions_def)

lemma consistent_kept:
  assumes con: "consistent s"
    and run: "handle f s req = (resp, s')"
    and ok: "succeeded resp"
  shows "consistent s'"
proof -
  have c1: "distinct (map rid (resumes s))"
    and c2: "\<And>x. x \<in> set (resumes s) \<Longrightarrow> rid x < next_id s"
    and c3: "\<And>v. v \<in> set (versions s) \<Longrightarrow> resume_id v < next_id s"
    and c4: "\<And>v x. v \<in> set (versions s) \<Longrightarrow> x \<in> set (resumes s) \<Longrightarrow>
                resume_id v = rid x \<Longrightarrow> version_number v \<le> current_version x"
    using con unfolding consistent_def by blast+
  from run show ?thesis
  proof (cases rule: handle_cases)
    case unchanged
    with con show ?thesis by simp
  next
    case (saved cur r)
    have cur: "cur \<in> set (resumes s)" using findById_SomeD [OF saved(1)] by simp
    have m: "map rid (resumes s') = map rid (resumes s)"
      unfolding saved(5) using saved(2) by (induction "resumes s") auto
    have up: "\<exists>y \<in> set (resumes s). rid x = rid y \<and> current_version x = current_version y"
      if "x \<in> set (resumes s')" for x
    proof (cases "x = r")
      case True
      with cur saved(2,3) show ?thesis by auto
    next
      case False
      with that saved(5) have "x \<in> set (resumes s)" by auto
      then show ?thesis by auto
    qed
    show ?thesis
      unfolding consistent_def
    proof (intro conjI ballI impI)
      show "distinct (map rid (resumes s'))" using c1 m by simp
      show "rid x < next_id s'" if "x \<in> set (resumes s')" for x
        using up [OF that] c2 saved(7) by auto
      show "resume_id v < next_id s'" if "v \<in> set (versions s')" for v
        using that c3 saved(6,7) by simp
      show "version_number v \<le> current_version x"
        if "v \<in> set (versions s')" "x \<in> set (resumes s')" "resume_id v = rid x" for v x
      proof -
        from up [OF that(2)] obtain y where y: "y \<in> set (resumes s)" "rid x = rid y"
          "current_version x = current_version y" by blast
        from that(1) saved(6) have "v \<in> set (versions s)" by simp
        from c4 [OF this y(1)] that(3) y(2,3) show ?thesis by simp
      qed
    qed
  next
    case (appended cur row)
    with ok show ?thesis by simp
  next
    case (advanced cur row r)
    have m: "map rid (resumes s') = map rid (resumes s)"
      unfolding advanced(9) using advanced(6) by (induction "resumes s") auto
    have up: "\<exists>y \<in> set (resumes s). rid x = rid y \<and>
        current_version y \<le> current_version x \<and> (rid x = rid cur \<longrightarrow> x = r)"
      if "x \<in> set (resumes s')" for x
    proof (cases "x = r")
      case True
      with advanced(2,6,7) show ?thesis by auto
    next
      case False
      with that advanced(9) have "x \<in> set (resumes s) \<and> rid x \<noteq> rid cur" by auto
      then show ?thesis by auto
    qed
    show ?thesis
      unfolding consistent_def
    proof (intro conjI ballI impI)
      show "distinct (map rid (resumes s'))" using c1 m by simp
      show "rid x < next_id s'" if "x \<in> set (resumes s')" for x
        using up [OF that] c2 advanced(11) by auto
      show "resume_id v < next_id s'" if "v \<in> set (versions s')" for v
        using that c3 c2 [OF advanced(2)] advanced(3,10,11) by auto
      show "version_number v \<le> current_version x"
        if "v \<in> set (versions s')" "x \<in> set (resumes s')" "resume_id v = rid x" for v x
      proof -
        from up [OF that(2)] obtain y where y: "y \<in> set (resumes s)" "rid x = rid y"
          "current_version y \<le> current_version x" "rid x = rid cur \<longrightarrow> x = r" by blast
        show ?thesis
        proof (cases "v = row")
          case True
          with that(3) advanced(3) y(4) have "x = r" by simp
          with True advanced(4,7) show ?thesis by simp
        next
          case False
          with that(1) advanced(10) have "v \<in> set (versions s)" by simp
          from c4 [OF this y(1)] that(3) y(2,3) show ?thesis by simp
        qed
      qed
    qed
  next
    case (doc_only r)
    with ok show ?thesis by simp
  next
    case (created r row)
    show ?thesis
      unfolding consistent_def
    proof (intro conjI ballI impI)
      show "distinct (map rid (resumes s'))"
        using c1 c2 created(2,8) by (auto simp: less_irrefl dest!: c2)
      show "rid x < next_id s'" if "x \<in> set (resumes s')" for x
        using that c2 [of x] created(2,8,10) by auto
      show "resume_id v < next_id s'" if "v \<in> set (versions s')" for v
        using that c3 [of v] created(4,9,10) by auto
      show "version_number v \<le> current_version x"
        if "v \<in> set (versions s')" "x \<in> set (resumes s')" "resume_id v = rid x" for v x
      proof (cases "v = row")
        case True
        with that(2,3) created(2,3,4,5,8) c2 [of x] show ?thesis by auto
      next
        case False
        with that(1) created(9) have v: "v \<in> set (versions s)" by simp
        show ?thesis
        proof (cases "x = r")
          case True
          with c3 [OF v] that(3) created(2) show ?thesis by simp
        next
          case False
          with that(2) created(8) have "x \<in> set (resumes s)" by simp
          from c4 [OF v this that(3)] show ?thesis .
        qed
      qed
    qed
  qed
qed

lemma consistent_empty_db: "consistent empty_db"
  by (simp add: consistent_def empty_db_def)

lemma POST_versions_found:
  assumes "rb_version_number body = Some n" and "0 < n"
    and "findVersion s i n = Some tv" and "findById s i = Some cur"
  shows "POST_versions f s i body =
     (case ResumeVersion_create f 1
             \<lparr>resume_id = i, version_number = current_version cur + 1,
              vdata = vdata tv, changed_sections = diffSections (Some (data cur)) (vdata tv),
              change_summary = Some (''Rolled back to v'' @ show_nat n),
              change_type = Rollback\<rparr> s of
        Inl e \<Rightarrow> (Response 500 (Error (Thrown e)), s)
      | Inr s1 \<Rightarrow>
          (case save f 2 (cur\<lparr>data := vdata tv, current_version := current_version cur + 1\<rparr>) s1 of
             Inl e \<Rightarrow> (Response 500 (Error (Thrown e)), s1)
           | Inr s2 \<Rightarrow>
               (Response 200 (Rolled_back
                  (cur\<lparr>data := vdata tv, current_version := current_version cur + 1\<rparr>)
                  (current_version cur + 1)), s2)))"
  using assms unfolding POST_versions_def Let_def by simp




section \<open>The race of two Replaces\<close>












lemma steps_left_0: "steps_left a = 0 \<Longrightarrow> \<exists>r. a = Done r"
  by (cases a) auto







lemma read_only:
  "snd (put_step i (Start body) t) = t"
  by (simp split: option.splits)

lemma read_ignores_versions:
  "resumes t = resumes s \<Longrightarrow> fst (put_step i (Start body) t) = fst (put_step i (Start body) s)"
  by (auto simp: findById_def split: option.splits)

lemma save_paths_alone:
  assumes con: "consistent s" and cur: "findById s i = Some cur" and t: "resumes t = resumes s"
  shows "save_paths i g t = t\<lparr>resumes := map (\<lambda>x. if rid x = i then g cur else x) (resumes t)\<rparr>"
proof -
  have "x = cur" if "x \<in> set (resumes s)" "rid x = i" for x
    using consistent_unique [OF con that(1)] findById_SomeD [OF cur] that(2) by simp
  then have "map (\<lambda>x. if rid x = i then g x else x) (resumes s) =
             map (\<lambda>x. if rid x = i then g cur else x) (resumes s)"
    by (intro map_cong) auto
  then show ?thesis by (simp add: save_paths_def t)
qed

lemma put_steps_alone:
  assumes con: "consistent s"
  shows "run2 i [True, True, True] (Start body) b s =
           (Done (fst (PUT NoFault s i body)), b, snd (PUT NoFault s i body))"
proof (cases "pb_data body")
  case None
  then show ?thesis by (simp add: PUT_def)
next
  case d: (Some d)
  show ?thesis
  proof (cases "findById s i")
    case None
    with d show ?thesis by (simp add: PUT_def)
  next
    case cur: (Some cur)
    have rid: "rid cur = i" using findById_SomeD [OF cur] by simp
    show ?thesis
    proof (cases "diffSections (Some (data cur)) d = []")
      case True
      with d cur rid save_paths_alone [OF con cur refl] show ?thesis
        by (auto simp: PUT_def Let_def save_def assign_keeps assign_meta_code_def
              assign_title_def)
    next
      case False
      have fresh: "findVersion s i (Suc (current_version cur)) = None"
        by (rule no_version_beyond [OF con cur])
      let ?t = "s\<lparr>versions := versions s @
                 [\<lparr>resume_id = i, version_number = Suc (current_version cur), vdata = d,
                   changed_sections = diffSections (Some (data cur)) d,
                   change_summary = Some (generateChangeSummary (diffSections (Some (data cur)) d)),
                   change_type = Edit\<rparr>]\<rparr>"
      have "resumes ?t = resumes s" by simp
      note sp = save_paths_alone [OF con cur this]
      from False d cur rid fresh show ?thesis
        by (simp add: PUT_def Let_def save_def ResumeVersion_create_def assign_keeps sp)
    qed
  qed
qed

section \<open>Ingest, both branches\<close>

text \<open>
  What an upload with a classifier \<open>c\<close> does when no write fails. If a document has the
  classifier, a row numbered \<open>current_version + 1\<close> of type upload is appended, whatever the
  diff is, and the document advances to it. If none has, a document with \<open>current_version = 1\<close>
  is created, and its first row of type upload lists every top-level key of the payload.
\<close>

lemma POST_upload_existing:
  assumes nn: "body \<noteq> JNull" and pl: "upload_payload body = Some (d, t)"
    and code: "field (field (Some (JObj d)) ''meta'') ''code'' = Some (JStr c)" "c \<noteq> []"
    and cur: "findOne_meta_code s c = Some cur"
    and con: "consistent s"
    and run: "POST_upload NoFault s body = (resp, s')"
  shows "\<exists>r. resp = Response 200 (Action ''updated'' r) \<and>
             data r = d \<and> current_version r = current_version cur + 1 \<and>
             findById s' (rid cur) = Some r \<and>
             versions s' = versions s @
               [\<lparr>resume_id = rid cur, version_number = current_version cur + 1, vdata = d,
                 changed_sections = diffSections (Some (data cur)) d,
                 change_summary = Some (generateChangeSummary (diffSections (Some (data cur)) d)),
                 change_type = Upload\<rparr>]"
proof -
  have mem: "cur \<in> set (resumes s)" using findOne_meta_code_SomeD [OF cur] by simp
  have fb: "findById s (rid cur) = Some cur"
  proof (cases "findById s (rid cur)")
    case None
    with mem show ?thesis by (auto simp: findById_def find_None_iff)
  next
    case (Some x)
    with findById_SomeD [OF Some] consistent_unique [OF con _ mem] show ?thesis by auto
  qed
  have fresh: "findVersion s (rid cur) (Suc (current_version cur)) = None"
    by (rule no_version_beyond [OF con fb])
  from run nn pl code cur fresh fb show ?thesis
    unfolding POST_upload_def Let_def
    by (auto simp: ResumeVersion_create_def save_def findById_def find_rid_map)
qed

lemma POST_upload_new_document:
  assumes nn: "body \<noteq> JNull" and pl: "upload_payload body = Some (d, t)"
    and code: "field (field (Some (JObj d)) ''meta'') ''code'' = Some (JStr c)" "c \<noteq> []"
    and none: "findOne_meta_code s c = None"
    and con: "consistent s"
    and run: "POST_upload NoFault s body = (resp, s')"
  shows "\<exists>r. resp = Response 201 (Action ''created'' r) \<and>
             rid r = next_id s \<and> meta_code r = c \<and> data r = d \<and> current_version r = 1 \<and>
             resumes s' = resumes s @ [r] \<and>
             versions s' = versions s @
               [\<lparr>resume_id = next_id s, version_number = 1, vdata = d,
                 changed_sections = map fst d, change_summary = Some ''Initial upload'',
                 change_type = Upload\<rparr>]"
proof -
  have fresh: "findVersion s (next_id s) (Suc 0) = None"
  proof (cases "findVersion s (next_id s) (Suc 0)")
    case (Some v)
    with findVersion_SomeD [OF Some] con show ?thesis
      unfolding consistent_def by fastforce
  qed simp
  from run nn pl code none fresh show ?thesis
    unfolding POST_upload_def Let_def
    by (auto simp: Resume_create_def ResumeVersion_create_def Let_def)
qed

section \<open>The running example, evaluated\<close>

lemma snapshot_ex_db: "current_snapshot_stored ex_db"
  by (simp add: current_snapshot_stored_def ex_db_def ex_resume_def ex_row1_def findVersion_def)

lemma PUT_ex:
  "PUT NoFault ex_db 7 ex_put =
     (Response 200 (Data (ex_resume\<lparr>data := ex_v2, current_version := 2\<rparr>)),
      \<lparr>resumes = [ex_resume\<lparr>data := ex_v2, current_version := 2\<rparr>],
       versions = [ex_row1,
         \<lparr>resume_id = 7, version_number = 2, vdata = ex_v2,
          changed_sections = [''basics'', ''skills''],
          change_summary = Some ''Updated basics, skills'', change_type = Edit\<rparr>],
       next_id = 8\<rparr>)"
  by (simp add: PUT_def ex_put_def ex_db_def findById_def ex_resume_def
        diffSections_def new_Set_def set_add_def ex_v1_def ex_v2_def Let_def
        generateChangeSummary_def ResumeVersion_create_def findVersion_def ex_row1_def
        save_def assign_meta_code_def assign_title_def)

lemma PUT_ex_fail2:
  "PUT (FailWrite 2) ex_db 7 ex_put =
     (Response 500 (Error (Thrown StoreUnavailable)),
      \<lparr>resumes = [ex_resume],
       versions = [ex_row1,
         \<lparr>resume_id = 7, version_number = 2, vdata = ex_v2,
          changed_sections = [''basics'', ''skills''],
          change_summary = Some ''Updated basics, skills'', change_type = Edit\<rparr>],
       next_id = 8\<rparr>)"
  by (simp add: PUT_def ex_put_def ex_db_def findById_def ex_resume_def
        diffSections_def new_Set_def set_add_def ex_v1_def ex_v2_def Let_def
        generateChangeSummary_def ResumeVersion_create_def findVersion_def ex_row1_def
        save_def assign_meta_code_def assign_title_def)

lemma PATCH_ex:
  "PATCH NoFault ex_db 7 ex_patch =
     (Response 200 (Data (ex_resume\<lparr>data := ex_v1 @ [(''skills'', JArr [JStr ''y''])]\<rparr>)),
      \<lparr>resumes = [ex_resume\<lparr>data := ex_v1 @ [(''skills'', JArr [JStr ''y''])]\<rparr>],
       versions = [ex_row1], next_id = 8\<rparr>)"
  by (simp add: PATCH_def ex_patch_def ex_db_def findById_def ex_resume_def validSections_def
        ex_v1_def Let_def save_def)

lemma wf_ex_v1: "wf_section_map ex_v1"
  by (simp add: wf_section_map_def ex_v1_def)

lemma ex_db2_eq:
  "ex_db2 = \<lparr>resumes = [ex_resume\<lparr>data := ex_v2, current_version := 2\<rparr>],
       versions = [ex_row1,
         \<lparr>resume_id = 7, version_number = 2, vdata = ex_v2,
          changed_sections = [''basics'', ''skills''],
          change_summary = Some ''Updated basics, skills'', change_type = Edit\<rparr>],
       next_id = 8\<rparr>"
  by (simp add: ex_db2_def PUT_ex)




lemma ex_uploaded_eq:
  "ex_uploaded =
     \<lparr>resumes = [\<lparr>rid = 1, user_id = ''anonymous'', meta_code = ''SWE'',
                   title = ''John Doe'' @ upload_separator @ ''SWE'',
                   data = ex_upload_data, current_version = 1\<rparr>],
      versions = [\<lparr>resume_id = 1, version_number = 1, vdata = ex_upload_data,
                    changed_sections = [''meta'', ''basics''],
                    change_summary = Some ''Initial upload'', change_type = Upload\<rparr>],
      next_id = 2\<rparr>"
  by (simp add: ex_uploaded_def POST_upload_def ex_upload_def upload_payload_def
        ex_upload_data_def Let_def display_name_def findOne_meta_code_def empty_db_def
        Resume_create_def ResumeVersion_create_def findVersion_def)

lemma upload_again:
  "POST_upload NoFault ex_uploaded ex_upload =
     (Response 200 (Action ''updated''
        \<lparr>rid = 1, user_id = ''anonymous'', meta_code = ''SWE'',
         title = ''John Doe'' @ upload_separator @ ''SWE'',
         data = ex_upload_data, current_version = 2\<rparr>),
      \<lparr>resumes = [\<lparr>rid = 1, user_id = ''anonymous'', meta_code = ''SWE'',
                   title = ''John Doe'' @ upload_separator @ ''SWE'',
                   data = ex_upload_data, current_version = 2\<rparr>],
      versions = [\<lparr>resume_id = 1, version_number = 1, vdata = ex_upload_data,
                    changed_sections = [''meta'', ''basics''],
                    change_summary = Some ''Initial upload'', change_type = Upload\<rparr>,
                  \<lparr>resume_id = 1, version_number = 2, vdata = ex_upload_data,
                    changed_sections = [],
                    change_summary = Some ''No changes detected'', change_type = Upload\<rparr>],
      next_id = 2\<rparr>)"
  by (simp add: ex_uploaded_eq POST_upload_def ex_upload_def upload_payload_def
        ex_upload_data_def Let_def display_name_def findOne_meta_code_def
        diffSections_def new_Set_def set_add_def generateChangeSummary_def
        ResumeVersion_create_def findVersion_def save_def)



text \<open>A create that loses the store after its first write: a document with no version row.\<close>

lemma new_document_without_row:
  "POST_resumes (FailWrite 2) empty_db ex_create =
     (Response 500 (Error (Thrown StoreUnavailable)),
      \<lparr>resumes = [\<lparr>rid = 1, user_id = ''anonymous'', meta_code = ''SWE'', title = ''CV'',
                   data = ex_v1, current_version = 1\<rparr>],
       versions = [], next_id = 2\<rparr>)"
  by (simp add: POST_resumes_def ex_create_def empty_db_def Let_def Resume_create_def
        ResumeVersion_create_def)

section \<open>Replace\<close>



section \<open>The current snapshot\<close>

text \<open>
  C1, as the code has it. A completed create, Replace, Ingest or Rollback keeps the invariant:
  if every document's data was the data of its version row numbered \<open>current_version\<close>
  before, it is so afterwards. A partial update is not among them: it writes \<open>data\<close> and
  leaves the version rows alone.
\<close>

theorem snapshot_kept:
  assumes inv: "current_snapshot_stored s"
    and run: "handle f s req = (resp, s')"
    and ok: "succeeded resp"
    and np: "\<not> is_partial req"
  shows "current_snapshot_stored s'"
  using run
proof (cases rule: handle_cases)
  case unchanged
  with inv show ?thesis by simp
next
  case (saved cur r)
  have cur: "cur \<in> set (resumes s)" using findById_SomeD [OF saved(1)] by simp
  from inv cur obtain v where v: "findVersion s (rid cur) (current_version cur) = Some v"
    "vdata v = data cur"
    unfolding current_snapshot_stored_def by blast
  show ?thesis
    unfolding current_snapshot_stored_def
  proof
    fix x assume "x \<in> set (resumes s')"
    then consider "x = r" | "x \<in> set (resumes s)" "rid x \<noteq> rid cur"
      using saved(5) by auto
    then show "\<exists>v. findVersion s' (rid x) (current_version x) = Some v \<and> vdata v = data x"
    proof cases
      case 1
      with v saved(2,3,4) np findVersion_same [OF saved(6)] show ?thesis by simp
    next
      case 2
      with inv findVersion_same [OF saved(6)] show ?thesis
        unfolding current_snapshot_stored_def by simp
    qed
  qed
next
  case (appended cur row)
  with ok show ?thesis by simp
next
  case (advanced cur row r)
  show ?thesis
    unfolding current_snapshot_stored_def
  proof
    fix x assume "x \<in> set (resumes s')"
    then consider "x = r" | "x \<in> set (resumes s)" "rid x \<noteq> rid cur"
      using advanced(9) by auto
    then show "\<exists>v. findVersion s' (rid x) (current_version x) = Some v \<and> vdata v = data x"
    proof cases
      case 1
      with advanced(3-8) findVersion_appended [OF advanced(10)] show ?thesis by simp
    next
      case 2
      with inv obtain v where "findVersion s (rid x) (current_version x) = Some v"
        "vdata v = data x"
        unfolding current_snapshot_stored_def by blast
      with findVersion_appended [OF advanced(10)] show ?thesis by simp
    qed
  qed
next
  case (doc_only r)
  with ok show ?thesis by simp
next
  case (created r row)
  show ?thesis
    unfolding current_snapshot_stored_def
  proof
    fix x assume "x \<in> set (resumes s')"
    then consider "x = r" | "x \<in> set (resumes s)"
      using created(8) by auto
    then show "\<exists>v. findVersion s' (rid x) (current_version x) = Some v \<and> vdata v = data x"
    proof cases
      case 1
      with created(2-7) findVersion_appended [OF created(9)] show ?thesis by simp
    next
      case 2
      with inv obtain v where "findVersion s (rid x) (current_version x) = Some v"
        "vdata v = data x"
        unfolding current_snapshot_stored_def by blast
      with findVersion_appended [OF created(9)] show ?thesis by simp
    qed
  qed
qed

theorem snapshot_kept_witness:
  "current_snapshot_stored ex_db \<and>
   succeeded (fst (handle NoFault ex_db (Replace 7 ex_put))) \<and>
   \<not> is_partial (Replace 7 ex_put) \<and>
   current_snapshot_stored (snd (handle NoFault ex_db (Replace 7 ex_put)))"
proof -
  have ok: "succeeded (fst (handle NoFault ex_db (Replace 7 ex_put)))"
    by (simp add: PUT_ex succeeded_def)
  have np: "\<not> is_partial (Replace 7 ex_put)" by simp
  have run: "handle NoFault ex_db (Replace 7 ex_put) =
      (fst (handle NoFault ex_db (Replace 7 ex_put)), snd (handle NoFault ex_db (Replace 7 ex_put)))"
    by simp
  from snapshot_kept [OF snapshot_ex_db run ok np] snapshot_ex_db ok np
  show ?thesis by simp
qed

text \<open>
  C1 as stated fails at a partial update: patching \<open>skills\<close> into the example document
  succeeds, and the document's data then has a section that version 1, still the current
  version, does not have.
\<close>

theorem partial_update_leaves_snapshot_behind:
  "current_snapshot_stored ex_db \<and>
   fst (PATCH NoFault ex_db 7 ex_patch) =
     Response 200 (Data (ex_resume\<lparr>data := ex_v1 @ [(''skills'', JArr [JStr ''y''])]\<rparr>)) \<and>
   map data (resumes (snd (PATCH NoFault ex_db 7 ex_patch))) =
     [[(''basics'', JObj [(''name'', JStr ''A'')]), (''skills'', JArr [JStr ''y''])]] \<and>
   map current_version (resumes (snd (PATCH NoFault ex_db 7 ex_patch))) = [1] \<and>
   map version_number (versions (snd (PATCH NoFault ex_db 7 ex_patch))) = [1] \<and>
   map vdata (versions (snd (PATCH NoFault ex_db 7 ex_patch))) =
     [[(''basics'', JObj [(''name'', JStr ''A'')])]] \<and>
   \<not> current_snapshot_stored (snd (PATCH NoFault ex_db 7 ex_patch))"
proof -
  have neg: "\<not> current_snapshot_stored (snd (PATCH NoFault ex_db 7 ex_patch))"
    by (simp add: PATCH_ex ex_resume_def ex_row1_def ex_v1_def
          current_snapshot_stored_def findVersion_def)
  have pos: "map data (resumes (snd (PATCH NoFault ex_db 7 ex_patch))) =
     [[(''basics'', JObj [(''name'', JStr ''A'')]), (''skills'', JArr [JStr ''y''])]] \<and>
   map current_version (resumes (snd (PATCH NoFault ex_db 7 ex_patch))) = [1] \<and>
   map version_number (versions (snd (PATCH NoFault ex_db 7 ex_patch))) = [1] \<and>
   map vdata (versions (snd (PATCH NoFault ex_db 7 ex_patch))) =
     [[(''basics'', JObj [(''name'', JStr ''A'')])]]"
    by (simp add: PATCH_ex ex_resume_def ex_row1_def ex_v1_def)
  have resp: "fst (PATCH NoFault ex_db 7 ex_patch) =
     Response 200 (Data (ex_resume\<lparr>data := ex_v1 @ [(''skills'', JArr [JStr ''y''])]\<rparr>))"
    by (simp add: PATCH_ex)
  from snapshot_ex_db resp pos neg show ?thesis by blast
qed

section \<open>Version row and pointer\<close>

text \<open>
  C2, as the code has it. The version row and the document are written by two separate
  store writes, the row first. For a document that exists, with a row for its
  \<open>current_version\<close>, every request leaves one of three outcomes, whatever write fails:
  its rows and its \<open>current_version\<close> are as before; or the second write failed and one row
  numbered \<open>current_version + 1\<close> was appended while \<open>current_version\<close> stayed; or the
  request succeeded, that row was appended and \<open>current_version\<close> advanced to it. In each of
  them \<open>current_version\<close> is the number of a stored row.
\<close>

theorem version_then_pointer:
  assumes con: "consistent s"
    and d0: "findById s i = Some d0"
    and backed: "findVersion s i (current_version d0) \<noteq> None"
    and run: "handle f s req = (resp, s')"
  shows "\<exists>d1. findById s' i = Some d1 \<and> findVersion s' i (current_version d1) \<noteq> None \<and>
           (current_version d1 = current_version d0 \<and> find_versions s' i = find_versions s i
            \<or> current_version d1 = current_version d0 \<and> f = FailWrite 2 \<and> \<not> succeeded resp \<and>
              (\<exists>row. find_versions s' i = find_versions s i @ [row] \<and>
                     version_number row = Suc (current_version d0))
            \<or> current_version d1 = Suc (current_version d0) \<and> succeeded resp \<and>
              (\<exists>row. find_versions s' i = find_versions s i @ [row] \<and>
                     version_number row = Suc (current_version d0)))"
proof -
  have mem: "d0 \<in> set (resumes s)" and rid0: "rid d0 = i"
    using findById_SomeD [OF d0] by simp_all
  have same: "cur = d0" if "cur \<in> set (resumes s)" "rid cur = i" for cur
    using consistent_unique [OF con that(1) mem] that(2) rid0 by simp
  from backed obtain v0 where v0: "findVersion s i (current_version d0) = Some v0"
    by auto
  from run show ?thesis
  proof (cases rule: handle_cases)
    case unchanged
    with d0 backed show ?thesis by auto
  next
    case (saved cur r)
    show ?thesis
    proof (cases "rid cur = i")
      case True
      with same findById_SomeD [OF saved(1)] have "cur = d0" by simp
      with True saved d0 v0 findById_saved [OF saved(5) saved(2), of i]
        findVersion_same [OF saved(6)] find_versions_same [OF saved(6)]
      show ?thesis by simp
    next
      case False
      with saved d0 v0 findById_saved [OF saved(5) saved(2), of i]
        findVersion_same [OF saved(6)] find_versions_same [OF saved(6)]
      show ?thesis by simp
    qed
  next
    case (appended cur row)
    have fb: "findById s' i = Some d0"
      using findById_same [OF appended(7)] d0 by simp
    have fv: "findVersion s' i (current_version d0) = Some v0"
      using findVersion_appended [OF appended(8)] v0 by simp
    show ?thesis
    proof (cases "rid cur = i")
      case True
      with same appended(3) have "cur = d0" by simp
      with True appended fb fv find_versions_appended [OF appended(8), of i]
      show ?thesis by simp
    next
      case False
      with appended fb fv find_versions_appended [OF appended(8), of i]
      show ?thesis by simp
    qed
  next
    case (advanced cur row r)
    show ?thesis
    proof (cases "rid cur = i")
      case True
      with same advanced(2) have c: "cur = d0" by simp
      have fb: "findById s' i = Some r"
        using findById_saved [OF advanced(9) advanced(6), of i] True d0 by simp
      have fv: "findVersion s' i (Suc (current_version d0)) = Some row"
        using findVersion_appended [OF advanced(10), of i "Suc (current_version d0)"]
          advanced(3,4,5) True c by simp
      from True c advanced fb fv find_versions_appended [OF advanced(10), of i]
      show ?thesis by simp
    next
      case False
      have fb: "findById s' i = Some d0"
        using findById_saved [OF advanced(9) advanced(6), of i] False d0 by simp
      have fv: "findVersion s' i (current_version d0) = Some v0"
        using findVersion_appended [OF advanced(10)] v0 by simp
      from False advanced fb fv find_versions_appended [OF advanced(10), of i]
      show ?thesis by simp
    qed
  next
    case (doc_only r)
    with findById_added [OF doc_only(4) d0] v0
      findVersion_same [OF doc_only(5)] find_versions_same [OF doc_only(5)]
    show ?thesis by simp
  next
    case (created r row)
    from con mem rid0 have "i < next_id s"
      unfolding consistent_def by auto
    with created findById_added [OF created(8) d0] v0
      findVersion_appended [OF created(9), of i "current_version d0"]
      find_versions_appended [OF created(9), of i]
    show ?thesis by simp
  qed
qed

theorem version_then_pointer_witness:
  "consistent ex_db \<and> findById ex_db 7 = Some ex_resume \<and>
   findVersion ex_db 7 (current_version ex_resume) \<noteq> None \<and>
   (\<exists>d1. findById (snd (handle (FailWrite 2) ex_db (Replace 7 ex_put))) 7 = Some d1 \<and>
      findVersion (snd (handle (FailWrite 2) ex_db (Replace 7 ex_put))) 7 (current_version d1) \<noteq> None \<and>
      current_version d1 = current_version ex_resume \<and>
      \<not> succeeded (fst (handle (FailWrite 2) ex_db (Replace 7 ex_put))) \<and>
      (\<exists>row. find_versions (snd (handle (FailWrite 2) ex_db (Replace 7 ex_put))) 7 =
               find_versions ex_db 7 @ [row] \<and>
             version_number row = Suc (current_version ex_resume)))"
proof -
  have h2: "findById ex_db 7 = Some ex_resume"
    by (simp add: findById_def ex_db_def ex_resume_def)
  have h3: "findVersion ex_db 7 (current_version ex_resume) \<noteq> None"
    by (simp add: findVersion_def ex_db_def ex_resume_def ex_row1_def)
  have run: "handle (FailWrite 2) ex_db (Replace 7 ex_put) =
      (fst (handle (FailWrite 2) ex_db (Replace 7 ex_put)),
       snd (handle (FailWrite 2) ex_db (Replace 7 ex_put)))"
    by simp
  have nf: "find_versions (snd (handle (FailWrite 2) ex_db (Replace 7 ex_put))) 7
              \<noteq> find_versions ex_db 7"
    unfolding handle.simps PUT_ex_fail2 by (simp add: find_versions_def ex_db_def ex_row1_def)
  have ns: "\<not> succeeded (fst (handle (FailWrite 2) ex_db (Replace 7 ex_put)))"
    by (simp add: PUT_ex_fail2 succeeded_def)
  from version_then_pointer [OF consistent_ex_db h2 h3 run] nf ns
  have "\<exists>d1. findById (snd (handle (FailWrite 2) ex_db (Replace 7 ex_put))) 7 = Some d1 \<and>
      findVersion (snd (handle (FailWrite 2) ex_db (Replace 7 ex_put))) 7 (current_version d1) \<noteq> None \<and>
      current_version d1 = current_version ex_resume \<and>
      \<not> succeeded (fst (handle (FailWrite 2) ex_db (Replace 7 ex_put))) \<and>
      (\<exists>row. find_versions (snd (handle (FailWrite 2) ex_db (Replace 7 ex_put))) 7 =
               find_versions ex_db 7 @ [row] \<and>
             version_number row = Suc (current_version ex_resume))"
    by blast
  with consistent_ex_db h2 h3 show ?thesis by blast
qed

text \<open>
  C2 as stated fails when the store is lost between the two writes of a Replace: the row
  numbered 2 is there, the document's \<open>current_version\<close> is still 1.
\<close>

theorem version_without_pointer:
  "consistent ex_db \<and>
   fst (PUT (FailWrite 2) ex_db 7 ex_put) = Response 500 (Error (Thrown StoreUnavailable)) \<and>
   map version_number (versions (snd (PUT (FailWrite 2) ex_db 7 ex_put))) = [1, 2] \<and>
   map resume_id (versions (snd (PUT (FailWrite 2) ex_db 7 ex_put))) = [7, 7] \<and>
   map rid (resumes (snd (PUT (FailWrite 2) ex_db 7 ex_put))) = [7] \<and>
   map current_version (resumes (snd (PUT (FailWrite 2) ex_db 7 ex_put))) = [1]"
  by (simp add: consistent_ex_db PUT_ex_fail2 ex_resume_def ex_row1_def)

section \<open>Two concurrent Replaces\<close>




section \<open>The diff against the specification's equality\<close>

text \<open>
  C4. The claim is the specification's equality; \<^verbatim>\<open>deepEqual\<close> is meant to be it and is not,
  where an object meets an array. The array branch refuses a non-array on the other side;
  the object branch misses the mirror check, counts the array's indices as keys and reads
  them. So a section changed from \<open>{}\<close> to \<open>[]\<close>, or from \<open>{"0": "Go"}\<close> to
  \<open>["Go"]\<close>, is not reported, while the specification's set has it. (What the code does
  report is always in the specification's set: \<open>diffSections_within_spec\<close>.)
\<close>

theorem object_against_array_not_reported:
  "diffSections (Some [(''skills'', JObj [])]) [(''skills'', JArr [])] = [] \<and>
   spec_diffSections (Some [(''skills'', JObj [])]) [(''skills'', JArr [])] = {''skills''} \<and>
   diffSections (Some [(''skills'', JObj [(''0'', JStr ''Go'')])])
                [(''skills'', JArr [JStr ''Go''])] = [] \<and>
   spec_diffSections (Some [(''skills'', JObj [(''0'', JStr ''Go'')])])
                [(''skills'', JArr [JStr ''Go''])] = {''skills''}"
  by (auto simp: diffSections_def new_Set_def set_add_def spec_diffSections_def
        array_get_def array_index_def is_digit_def)

section \<open>A map against itself\<close>

text \<open>
  C5. For a well-formed section map \<open>X\<close>, \<open>diffSections X X\<close> is empty; and after a
  successful rollback to version \<open>n\<close> whose data is \<open>X\<close>, the diff of the document's new data
  against the data of version \<open>n\<close>, read back from the store, is empty.
\<close>

theorem diff_same_empty:
  assumes "wf_section_map X"
  shows "diffSections (Some X) X = [] \<and>
         (findVersion s i n = Some tv \<and> vdata tv = X \<and> rb_version_number body = Some n \<and>
          POST_versions f s i body = (resp, s') \<and> succeeded resp \<longrightarrow>
            (\<exists>r' tv'. findById s' i = Some r' \<and> findVersion s' i n = Some tv' \<and>
                       diffSections (Some (data r')) (vdata tv') = []))"
proof (intro conjI impI)
  show same: "diffSections (Some X) X = []"
    by (rule diffSections_same [OF assms])
  assume a: "findVersion s i n = Some tv \<and> vdata tv = X \<and> rb_version_number body = Some n \<and>
          POST_versions f s i body = (resp, s') \<and> succeeded resp"
  then have run: "POST_versions f s i body = (resp, s')" and ok: "succeeded resp"
    and tv: "findVersion s i n = Some tv" and X: "vdata tv = X"
    and n: "rb_version_number body = Some n" by simp_all
  have pos: "0 < n"
    using run ok n by (cases "n = 0") (auto simp: POST_versions_def succeeded_def)
  obtain cur where cur: "findById s i = Some cur"
    using run ok n pos tv
    by (cases "findById s i") (auto simp: POST_versions_def succeeded_def)
  have rid: "rid cur = i" using findById_SomeD [OF cur] by simp
  let ?r = "cur\<lparr>data := vdata tv, current_version := current_version cur + 1\<rparr>"
  have fresh: "f \<noteq> FailWrite 1 \<and> findVersion s i (Suc (current_version cur)) = None \<and>
               f \<noteq> FailWrite 2"
    using run ok unfolding POST_versions_found [OF n pos tv cur]
    by (auto simp: ResumeVersion_create_def save_def succeeded_def split: if_splits)
  with run have s': "s' = s\<lparr>versions := versions s @
        [\<lparr>resume_id = i, version_number = current_version cur + 1,
              vdata = vdata tv, changed_sections = diffSections (Some (data cur)) (vdata tv),
              change_summary = Some (''Rolled back to v'' @ show_nat n),
              change_type = Rollback\<rparr>],
      resumes := map (\<lambda>x. if rid x = i then ?r else x) (resumes s)\<rparr>"
    unfolding POST_versions_found [OF n pos tv cur]
    by (auto simp: ResumeVersion_create_def save_def rid)
  have "findById s' i = Some ?r"
    unfolding s' using cur rid by (simp add: findById_def find_rid_map)
  moreover have "findVersion s' i n = Some tv"
    unfolding s' using tv by (simp add: findVersion_def find_append)
  ultimately show "\<exists>r' tv'. findById s' i = Some r' \<and> findVersion s' i n = Some tv' \<and>
                       diffSections (Some (data r')) (vdata tv') = []"
    using same X by simp
qed

theorem diff_same_empty_witness:
  "wf_section_map ex_v1 \<and> diffSections (Some ex_v1) ex_v1 = [] \<and>
   findVersion ex_db2 7 1 = Some ex_row1 \<and> vdata ex_row1 = ex_v1 \<and>
   rb_version_number ex_rollback = Some 1 \<and>
   succeeded (fst (POST_versions NoFault ex_db2 7 ex_rollback)) \<and>
   (\<exists>r' tv'. findById (snd (POST_versions NoFault ex_db2 7 ex_rollback)) 7 = Some r' \<and>
      findVersion (snd (POST_versions NoFault ex_db2 7 ex_rollback)) 7 1 = Some tv' \<and>
      diffSections (Some (data r')) (vdata tv') = [])"
proof -
  have h1: "findVersion ex_db2 7 1 = Some ex_row1"
    by (simp add: ex_db2_eq findVersion_def ex_row1_def)
  have h2: "vdata ex_row1 = ex_v1" by (simp add: ex_row1_def)
  have h3: "rb_version_number ex_rollback = Some 1" by (simp add: ex_rollback_def)
  have h4: "succeeded (fst (POST_versions NoFault ex_db2 7 ex_rollback))"
    by (simp add: ex_db2_eq POST_versions_def ex_rollback_def findVersion_def ex_row1_def
          findById_def ex_resume_def Let_def ResumeVersion_create_def save_def succeeded_def)
  from diff_same_empty [OF wf_ex_v1, of ex_db2 7 1 ex_row1 ex_rollback NoFault
       "fst (POST_versions NoFault ex_db2 7 ex_rollback)"
       "snd (POST_versions NoFault ex_db2 7 ex_rollback)"] h1 h2 h3 h4 wf_ex_v1
  show ?thesis by simp
qed

section \<open>Partial update\<close>



section \<open>Ingest of an unchanged payload\<close>

text \<open>
  C8. Uploading the same payload a second time: the diff against the current data is empty,
  and the upload route still appends version 2, with no changed section, and advances the
  document to it. Replace, given the same data, leaves the store as it is.
\<close>

theorem upload_again_versions_without_change:
  "map current_version (resumes ex_uploaded) = [1] \<and>
   map data (resumes ex_uploaded) = [ex_upload_data] \<and>
   map meta_code (resumes ex_uploaded) = [''SWE''] \<and>
   diffSections (Some ex_upload_data) ex_upload_data = [] \<and>
   status (fst (POST_upload NoFault ex_uploaded ex_upload)) = 200 \<and>
   map version_number (versions (snd (POST_upload NoFault ex_uploaded ex_upload))) = [1, 2] \<and>
   map changed_sections (versions (snd (POST_upload NoFault ex_uploaded ex_upload))) =
     [[''meta'', ''basics''], []] \<and>
   map change_summary (versions (snd (POST_upload NoFault ex_uploaded ex_upload))) =
     [Some ''Initial upload'', Some ''No changes detected''] \<and>
   map change_type (versions (snd (POST_upload NoFault ex_uploaded ex_upload))) = [Upload, Upload] \<and>
   map current_version (resumes (snd (POST_upload NoFault ex_uploaded ex_upload))) = [2] \<and>
   snd (PUT NoFault ex_uploaded 1
          \<lparr>pb_data = Some ex_upload_data, pb_title = None, pb_meta_code = None\<rparr>) = ex_uploaded"
proof -
  have d: "diffSections (Some ex_upload_data) ex_upload_data = []"
    by (simp add: diffSections_def new_Set_def set_add_def ex_upload_data_def)
  have p: "snd (PUT NoFault ex_uploaded 1
          \<lparr>pb_data = Some ex_upload_data, pb_title = None, pb_meta_code = None\<rparr>) = ex_uploaded"
    by (simp add: PUT_def ex_uploaded_eq findById_def d Let_def)
  have u: "map current_version (resumes ex_uploaded) = [1] \<and>
   map data (resumes ex_uploaded) = [ex_upload_data] \<and>
   map meta_code (resumes ex_uploaded) = [''SWE'']"
    by (simp add: ex_uploaded_eq)
  from d p u show ?thesis by (simp add: upload_again)
qed

section \<open>Rollback\<close>



section \<open>Rows with no changed section\<close>

text \<open>
  C10. Three requests that store a version row whose \<open>changed_sections\<close> is empty: a create
  (the row is written without the field, the schema's default is the empty list), an upload
  of an unchanged payload, and a rollback to the current version.
\<close>

theorem versions_with_empty_changed_sections:
  "status (fst (POST_resumes NoFault empty_db ex_create)) = 201 \<and>
   map version_number (versions (snd (POST_resumes NoFault empty_db ex_create))) = [1] \<and>
   map changed_sections (versions (snd (POST_resumes NoFault empty_db ex_create))) = [[]] \<and>
   status (fst (POST_upload NoFault ex_uploaded ex_upload)) = 200 \<and>
   map changed_sections (versions (snd (POST_upload NoFault ex_uploaded ex_upload))) =
     [[''meta'', ''basics''], []] \<and>
   status (fst (POST_versions NoFault ex_db 7 ex_rollback)) = 200 \<and>
   map version_number (versions (snd (POST_versions NoFault ex_db 7 ex_rollback))) = [1, 2] \<and>
   map changed_sections (versions (snd (POST_versions NoFault ex_db 7 ex_rollback))) =
     [[''basics''], []]"
proof -
  have c: "status (fst (POST_resumes NoFault empty_db ex_create)) = 201 \<and>
   map version_number (versions (snd (POST_resumes NoFault empty_db ex_create))) = [1] \<and>
   map changed_sections (versions (snd (POST_resumes NoFault empty_db ex_create))) = [[]]"
    by (simp add: POST_resumes_def ex_create_def empty_db_def Let_def Resume_create_def
          ResumeVersion_create_def findVersion_def ex_v1_def)
  have r: "status (fst (POST_versions NoFault ex_db 7 ex_rollback)) = 200 \<and>
   map version_number (versions (snd (POST_versions NoFault ex_db 7 ex_rollback))) = [1, 2] \<and>
   map changed_sections (versions (snd (POST_versions NoFault ex_db 7 ex_rollback))) =
     [[''basics''], []]"
    by (simp add: POST_versions_def ex_rollback_def ex_db_def findVersion_def ex_row1_def
          findById_def ex_resume_def Let_def diffSections_def new_Set_def set_add_def ex_v1_def
          ResumeVersion_create_def save_def)
  from c r show ?thesis by (simp add: upload_again)
qed

end
